theory Spec2Isabelle
  imports Main
begin

section \<open>The survey validator (validator.py)\<close>

text \<open>
  The class \<^verbatim>\<open>Validator\<close> reads a survey export with pandas, repairs tokens that were
  typed into a trailing column without a header, removes (or lists) the responses whose
  token is a duplicate or is not in the token file, and writes the result.

  The embedding follows the class: its attributes are the fields of a record that every
  method takes and returns, every exception is a value, and every loop is a recursion over
  the rows. A Python character is one \<^typ>\<open>char\<close>, so the texts of the model are the
  ones whose characters have a code below 256.
\<close>

subsection \<open>Class constants\<close>

definition ID_FIELD :: string where
  "ID_FIELD = ''Respondent ID''"

definition WCA_TOKEN_FIELD :: string where
  "WCA_TOKEN_FIELD = ''wca_token''"

definition WCA_TOKEN_LEN :: nat where
  "WCA_TOKEN_LEN = 64"

definition MAX_COLUMNS :: nat where
  "MAX_COLUMNS = 400"

subsection \<open>Python strings\<close>

text \<open>\<^verbatim>\<open>str.isspace\<close> on one character, for the code points below 256.\<close>

definition isspace :: "char \<Rightarrow> bool" where
  "isspace c = ((of_char c :: nat) \<in> {9, 10, 11, 12, 13, 28, 29, 30, 31, 32, 133, 160})"

definition strip :: "string \<Rightarrow> string" where
  "strip s = rev (dropWhile isspace (rev (dropWhile isspace s)))"

primrec starts_with :: "string \<Rightarrow> string \<Rightarrow> bool" where
  "starts_with [] s = True"
| "starts_with (p # ps) s = (case s of [] \<Rightarrow> False | c # cs \<Rightarrow> c = p \<and> starts_with ps cs)"

text \<open>\<^verbatim>\<open>needle in haystack\<close> on strings.\<close>

primrec contains :: "string \<Rightarrow> string \<Rightarrow> bool" where
  "contains needle [] = (needle = [])"
| "contains needle (c # cs) = (starts_with needle (c # cs) \<or> contains needle cs)"

text \<open>\<^verbatim>\<open>text.split('\n')\<close>: the pieces between the line feeds, the empty ones included.\<close>

primrec split_lines :: "string \<Rightarrow> string list" where
  "split_lines [] = [[]]"
| "split_lines (c # cs) =
     (if c = CHR 0x0A then [] # split_lines cs
      else (case split_lines cs of [] \<Rightarrow> [[c]] | w # ws \<Rightarrow> (c # w) # ws))"

text \<open>
  A file opened for reading in text mode: \<^verbatim>\<open>open(path, 'r')\<close> hands over every line
  end, CR LF or CR alone, as a line feed. The flag says that the character before was a CR.
\<close>

fun translate_newlines :: "bool \<Rightarrow> string \<Rightarrow> string" where
  "translate_newlines after_cr [] = []"
| "translate_newlines after_cr (c # cs) =
     (if c = CHR 0x0D then CHR 0x0A # translate_newlines True cs
      else if c = CHR 0x0A \<and> after_cr then translate_newlines False cs
      else c # translate_newlines False cs)"

definition read_text :: "string \<Rightarrow> string" where
  "read_text stored = translate_newlines False stored"

definition digit_char :: "nat \<Rightarrow> char" where
  "digit_char d = ''0123456789'' ! (d mod 10)"

text \<open>\<^verbatim>\<open>str(n)\<close> for a natural number, as the f-strings of the log lines format it.\<close>

fun str_nat :: "nat \<Rightarrow> string" where
  "str_nat n = (if n < 10 then [digit_char n] else str_nat (n div 10) @ [digit_char (n mod 10)])"

declare str_nat.simps [simp del]

definition str_int :: "int \<Rightarrow> string" where
  "str_int i = (if i < 0 then CHR ''-'' # str_nat (nat (- i)) else str_nat (nat i))"

subsection \<open>Exceptions, cells and frames\<close>

datatype error =
    FileNotFoundError
  | KeyError
  | IndexError
  | AttributeError
  | TypeError
  | SystemExit int

text \<open>
  A cell of the frame is a Python object: a \<^verbatim>\<open>str\<close>, or a number where pandas
  inferred a numeric column.
\<close>

datatype cell = Str string | Num int

text \<open>
  A \<^verbatim>\<open>DataFrame\<close>: the column names, and the rows in order, each with its index
  label.
\<close>

record frame =
  columns :: "string list"
  rows :: "(nat \<times> cell list) list"

definition labels :: "frame \<Rightarrow> nat list" where
  "labels f = map fst (rows f)"

primrec col_pos :: "string \<Rightarrow> string list \<Rightarrow> nat option" where
  "col_pos name [] = None"
| "col_pos name (c # cs) =
     (if c = name then Some 0 else map_option Suc (col_pos name cs))"

text \<open>\<^verbatim>\<open>row[name]\<close> on the Series of one row: a \<^verbatim>\<open>KeyError\<close> without the column.\<close>

definition getitem :: "string list \<Rightarrow> cell list \<Rightarrow> string \<Rightarrow> error + cell" where
  "getitem cols r name =
     (case col_pos name cols of
        None \<Rightarrow> Inl KeyError
      | Some j \<Rightarrow> if j < length r then Inr (r ! j) else Inl KeyError)"

text \<open>\<^verbatim>\<open>row[name] = v\<close> on the Series of one row.\<close>

definition setitem :: "string list \<Rightarrow> cell list \<Rightarrow> string \<Rightarrow> cell \<Rightarrow> cell list" where
  "setitem cols r name v =
     (case col_pos name cols of None \<Rightarrow> r @ [v] | Some j \<Rightarrow> r[j := v])"

text \<open>
  \<^verbatim>\<open>df[name]\<close>: the column as a list, a \<^verbatim>\<open>KeyError\<close> without it. Every row of a
  frame that \<^verbatim>\<open>read_csv\<close> built has a cell for every column; the test on the length of
  a row only keeps the function total.
\<close>

definition column :: "frame \<Rightarrow> string \<Rightarrow> error + cell list" where
  "column f name =
     (case col_pos name (columns f) of
        None \<Rightarrow> Inl KeyError
      | Some j \<Rightarrow> Inr (map (\<lambda>(l, r). if j < length r then r ! j else Str []) (rows f)))"

text \<open>
  pandas keeps the columns of one type together in one block. A column of text is a column
  of objects and a column that was inferred as numeric is not, so the frame is a single
  block of objects when it holds no number.
\<close>

definition is_text :: "cell \<Rightarrow> bool" where
  "is_text c = (case c of Str s \<Rightarrow> True | Num n \<Rightarrow> False)"

definition one_block :: "frame \<Rightarrow> bool" where
  "one_block f = list_all (\<lambda>(l, r). list_all is_text r) (rows f)"

text \<open>\<^verbatim>\<open>cell.strip()\<close>: only a \<^verbatim>\<open>str\<close> has the method.\<close>

definition cell_strip :: "cell \<Rightarrow> error + string" where
  "cell_strip c = (case c of Str s \<Rightarrow> Inr (strip s) | Num n \<Rightarrow> Inl AttributeError)"

text \<open>\<^verbatim>\<open>len(cell)\<close>: a number has no length.\<close>

definition cell_len :: "cell \<Rightarrow> error + nat" where
  "cell_len c = (case c of Str s \<Rightarrow> Inr (length s) | Num n \<Rightarrow> Inl TypeError)"

subsection \<open>The Loader: \<^verbatim>\<open>pandas.read_csv\<close> with the converters of \<^verbatim>\<open>run\<close>\<close>

text \<open>
  The survey file arrives tokenised: the header's fields and the fields of every later
  line. pandas names a column whose header field is empty after its position, hands the
  text of a field to the column's converter where the call gives one, and where it gives
  none decides the column's type from all of its fields. That inference belongs to pandas
  and is a parameter here: given the fields of the column, it maps a field to its cell.
  The header fields that are not empty are taken to differ from each other (pandas renames
  a repeated one), and no line to have more fields than the header (pandas would take its
  first field for the index).
\<close>

type_synonym inference = "string list \<Rightarrow> string \<Rightarrow> cell"

type_synonym tokenised = "string list \<times> string list list"

text \<open>\<^verbatim>\<open>{i: str for i in range(self.MAX_COLUMNS)}\<close>\<close>

definition converters :: "nat \<Rightarrow> (string \<Rightarrow> cell) option" where
  "converters i = (if i < MAX_COLUMNS then Some Str else None)"

definition column_name :: "nat \<Rightarrow> string \<Rightarrow> string" where
  "column_name j h = (if h = [] then ''Unnamed: '' @ str_nat j else h)"

text \<open>The field of a line at a position; a short line is filled up with empty fields.\<close>

definition field :: "string list \<Rightarrow> nat \<Rightarrow> string" where
  "field line j = (if j < length line then line ! j else [])"

definition read_csv ::
  "inference \<Rightarrow> (nat \<Rightarrow> (string \<Rightarrow> cell) option) \<Rightarrow> tokenised \<Rightarrow> frame" where
  "read_csv infer convs file =
     (case file of (header, body) \<Rightarrow>
        \<lparr>columns = map (\<lambda>(j, h). column_name j h) (enumerate 0 header),
         rows = map (\<lambda>(i, line).
                  (i, map (\<lambda>j. case convs j of
                                  Some f \<Rightarrow> f (field line j)
                                | None \<Rightarrow> infer (map (\<lambda>l. field l j) body) (field line j))
                        [0..<length header]))
                  (enumerate 0 body)\<rparr>)"

subsection \<open>The instance and the logger\<close>

datatype level = Verbose | Info | Warning | Error

text \<open>
  The attributes of \<^verbatim>\<open>self\<close>. The logger's calls are kept as the lines they were given,
  and the file at \<^verbatim>\<open>output_path\<close> as its text once the run has opened it for writing.
\<close>

record validator =
  token_list :: "string list"
  list_only :: bool
  total_responses :: int
  deleted :: int
  to_delete :: "cell list"
  df :: frame
  bad_token_column :: "string option"
  logger :: "(level \<times> string) list"
  output_file :: "string option"

text \<open>\<^verbatim>\<open>__init__\<close>; the frame is not bound yet and stands as the empty one.\<close>

definition init :: "bool \<Rightarrow> validator" where
  "init lo =
     \<lparr>token_list = [], list_only = lo, total_responses = - 1, deleted = 0, to_delete = [],
      df = \<lparr>columns = [], rows = []\<rparr>, bad_token_column = None, logger = [],
      output_file = None\<rparr>"

definition emit :: "level \<Rightarrow> string \<Rightarrow> validator \<Rightarrow> validator" where
  "emit lv msg self = self\<lparr>logger := logger self @ [(lv, msg)]\<rparr>"

definition lverbose :: "string \<Rightarrow> validator \<Rightarrow> validator" where
  "lverbose = emit Verbose"

definition linfo :: "string \<Rightarrow> validator \<Rightarrow> validator" where
  "linfo = emit Info"

definition lwarn :: "string \<Rightarrow> validator \<Rightarrow> validator" where
  "lwarn = emit Warning"

definition lerr :: "string \<Rightarrow> validator \<Rightarrow> validator" where
  "lerr = emit Error"

text \<open>The truth value of \<^verbatim>\<open>self.bad_token_column\<close> in an \<^verbatim>\<open>if\<close>.\<close>

definition truthy :: "string option \<Rightarrow> bool" where
  "truthy b = (case b of None \<Rightarrow> False | Some s \<Rightarrow> s \<noteq> [])"

subsection \<open>\<^verbatim>\<open>is_valid\<close>\<close>

definition is_valid :: "validator \<Rightarrow> string \<Rightarrow> bool" where
  "is_valid self token = (token \<in> set (token_list self))"

subsection \<open>\<^verbatim>\<open>fix_token_position\<close>\<close>

text \<open>
  The body of the loop on the Series \<^verbatim>\<open>row\<close> that \<^verbatim>\<open>iterrows\<close> built for one row:
  the result is that Series after the body. \<^verbatim>\<open>row[self.bad_token_column]\<close> with no
  such column is a \<^verbatim>\<open>KeyError\<close>.
\<close>

definition fix_row :: "string list \<Rightarrow> string option \<Rightarrow> cell list \<Rightarrow> error + cell list" where
  "fix_row cols bad r =
     (case getitem cols r WCA_TOKEN_FIELD of
        Inl e \<Rightarrow> Inl e
      | Inr c \<Rightarrow>
         (case cell_strip c of
            Inl e \<Rightarrow> Inl e
          | Inr token \<Rightarrow>
              if token \<noteq> [] then Inr r
              else
                (case (case bad of None \<Rightarrow> Inl KeyError | Some b \<Rightarrow> getitem cols r b) of
                   Inl e \<Rightarrow> Inl e
                 | Inr b \<Rightarrow>
                    (case cell_len b of
                       Inl e \<Rightarrow> Inl e
                     | Inr n \<Rightarrow>
                         if n = WCA_TOKEN_LEN
                         then (case cell_strip b of
                                 Inl e \<Rightarrow> Inl e
                               | Inr v \<Rightarrow> Inr (setitem cols r WCA_TOKEN_FIELD (Str v)))
                         else Inr r))))"

text \<open>
  The loop over \<^verbatim>\<open>self.df.iloc[1:].iterrows()\<close>, row by row with the position of the
  row in the frame. \<^verbatim>\<open>iterrows\<close> builds the Series of a row from \<^verbatim>\<open>self.values\<close>. For
  a frame of one block that is the block itself, the Series is a view of the row, and the
  assignment of line 170 writes into the frame: this is pandas before copy-on-write
  (1.x and 2.x), the pandas the program was written for, and the frames that \<^verbatim>\<open>run\<close>
  loads with its converters are of one block. For a frame of several blocks
  \<^verbatim>\<open>self.values\<close> is a new array, the Series is a copy and the assignment is lost, as
  the documentation of \<^verbatim>\<open>iterrows\<close> warns. (The rows of a view are written at once, so
  an exception in a later row leaves the earlier repairs in the frame.)
\<close>

definition write_back :: "nat \<Rightarrow> nat \<times> cell list \<Rightarrow> validator \<Rightarrow> validator" where
  "write_back pos series self = self\<lparr>df := (df self)\<lparr>rows := (rows (df self))[pos := series]\<rparr>\<rparr>"

fun fix_rows ::
  "string list \<Rightarrow> string option \<Rightarrow> bool \<Rightarrow> (nat \<times> nat \<times> cell list) list \<Rightarrow> validator
     \<Rightarrow> error option \<times> validator" where
  "fix_rows cols bad view [] self = (None, self)"
| "fix_rows cols bad view ((pos, index, r) # rest) self =
     (case fix_row cols bad r of
        Inl e \<Rightarrow> (Some e, self)
      | Inr r' \<Rightarrow>
          fix_rows cols bad view rest (if view then write_back pos (index, r') self else self))"

definition fix_token_position :: "validator \<Rightarrow> error option \<times> validator" where
  "fix_token_position self =
     fix_rows (columns (df self)) (bad_token_column self) (one_block (df self))
       (enumerate 1 (drop 1 (rows (df self)))) self"

text \<open>
  A row and what the repair may make of it: the row itself, or the row with the stripped
  64 characters of another column in the place of its blank token.
\<close>

abbreviation same_or_repaired ::
  "string list \<Rightarrow> nat \<times> cell list \<Rightarrow> nat \<times> cell list \<Rightarrow> bool" where
  "same_or_repaired cols before after \<equiv>
     after = before
     \<or> (\<exists>b t v. getitem cols (snd before) WCA_TOKEN_FIELD = Inr (Str t) \<and> strip t = []
           \<and> getitem cols (snd before) b = Inr (Str v) \<and> length v = WCA_TOKEN_LEN
           \<and> after = (fst before, setitem cols (snd before) WCA_TOKEN_FIELD (Str (strip v))))"

subsection \<open>\<^verbatim>\<open>delete_older_duplicates\<close>\<close>

text \<open>
  \<^verbatim>\<open>duplicated(keep='first')\<close> on a list of values: an entry is marked when its value
  stands at an earlier position.
\<close>

definition duplicated :: "'a list \<Rightarrow> bool list" where
  "duplicated vs = map (\<lambda>i. vs ! i \<in> set (take i vs)) [0..<length vs]"

text \<open>\<^verbatim>\<open>df[mask]\<close> and its complement, with the labels kept.\<close>

definition select_rows :: "frame \<Rightarrow> bool list \<Rightarrow> frame" where
  "select_rows f marks = f\<lparr>rows := map snd (filter fst (zip marks (rows f)))\<rparr>"

definition drop_marked :: "frame \<Rightarrow> bool list \<Rightarrow> frame" where
  "drop_marked f marks =
     f\<lparr>rows := map snd (filter (\<lambda>(m, r). \<not> m) (zip marks (rows f)))\<rparr>"

text \<open>The result is the mask in list mode and \<^verbatim>\<open>None\<close> otherwise.\<close>

definition delete_older_duplicates ::
  "bool \<Rightarrow> validator \<Rightarrow> (error + bool list option) \<times> validator" where
  "delete_older_duplicates lo self =
     (case column (df self) WCA_TOKEN_FIELD of
        Inl e \<Rightarrow> (Inl e, self)
      | Inr tokens \<Rightarrow>
          if lo then (Inr (Some (duplicated tokens)), self)
          else (Inr None, self\<lparr>df := drop_marked (df self) (duplicated tokens)\<rparr>))"

subsection \<open>\<^verbatim>\<open>_delete\<close>\<close>

text \<open>
  \<^verbatim>\<open>df.drop(index, axis=0)\<close>: every row with the label goes; a \<^verbatim>\<open>KeyError\<close> without
  one. The method \<^verbatim>\<open>_delete\<close> is \<open>delete_row\<close> here.
\<close>

definition drop_label :: "frame \<Rightarrow> nat \<Rightarrow> error + frame" where
  "drop_label f l =
     (if l \<in> set (labels f) then Inr (f\<lparr>rows := filter (\<lambda>(l', r). l' \<noteq> l) (rows f)\<rparr>)
      else Inl KeyError)"

definition delete_row :: "nat \<Rightarrow> validator \<Rightarrow> error option \<times> validator" where
  "delete_row index self =
     (let s1 = lverbose (''#'' @ str_nat index @ '' >> deleted'') self
      in case drop_label (df s1) index of
           Inl e \<Rightarrow> (Some e, s1)
         | Inr f \<Rightarrow> (None, s1\<lparr>df := f, deleted := deleted s1 + 1\<rparr>))"

subsection \<open>The validation loops\<close>

text \<open>
  The loop of \<^verbatim>\<open>run_delete\<close> over \<^verbatim>\<open>self.df.iloc[1:].iterrows()\<close>. The rows it visits
  are the ones the frame had when the loop began; \<^verbatim>\<open>_delete\<close> binds \<^verbatim>\<open>self.df\<close> to
  a frame without the row.
\<close>

fun validate_delete ::
  "string list \<Rightarrow> (nat \<times> cell list) list \<Rightarrow> validator \<Rightarrow> error option \<times> validator" where
  "validate_delete cols [] self = (None, self)"
| "validate_delete cols ((index, r) # rest) self =
     (case getitem cols r WCA_TOKEN_FIELD of
        Inl e \<Rightarrow> (Some e, self)
      | Inr c \<Rightarrow>
         (case cell_strip c of
            Inl e \<Rightarrow> (Some e, self)
          | Inr token \<Rightarrow>
              if \<not> is_valid self token \<or> token = []
              then (case delete_row index
                           (linfo (''#'' @ str_nat index @ '' >> Invalid token'') self) of
                      (Some e, s) \<Rightarrow> (Some e, s)
                    | (None, s) \<Rightarrow> validate_delete cols rest s)
              else validate_delete cols rest
                     (lverbose (''#'' @ str_nat index @ '' >> OK'') self)))"

text \<open>\<^verbatim>\<open>series.iloc[index]\<close>: by position, an \<^verbatim>\<open>IndexError\<close> beyond the end.\<close>

definition iloc :: "'a list \<Rightarrow> nat \<Rightarrow> error + 'a" where
  "iloc vs i = (if i < length vs then Inr (vs ! i) else Inl IndexError)"

text \<open>The loop of \<^verbatim>\<open>run_list\<close>: a failing row's identifier is appended to the list.\<close>

fun validate_list ::
  "string list \<Rightarrow> (nat \<times> cell list) list \<Rightarrow> validator \<Rightarrow> error option \<times> validator" where
  "validate_list cols [] self = (None, self)"
| "validate_list cols ((index, r) # rest) self =
     (case getitem cols r WCA_TOKEN_FIELD of
        Inl e \<Rightarrow> (Some e, self)
      | Inr c \<Rightarrow>
         (case cell_strip c of
            Inl e \<Rightarrow> (Some e, self)
          | Inr token \<Rightarrow>
              if \<not> is_valid self token \<or> token = []
              then
                (let s1 = (if token \<noteq> []
                           then linfo (''#'' @ str_nat index @ '' >> Invalid token'') self
                           else self)
                 in case column (df s1) ID_FIELD of
                      Inl e \<Rightarrow> (Some e, s1)
                    | Inr ids \<Rightarrow>
                       (case iloc ids index of
                          Inl e \<Rightarrow> (Some e, s1)
                        | Inr ident \<Rightarrow>
                            validate_list cols rest (s1\<lparr>to_delete := to_delete s1 @ [ident]\<rparr>)))
              else validate_list cols rest
                     (lverbose (''#'' @ str_nat index @ '' >> OK'') self)))"

subsection \<open>The Emitter\<close>

text \<open>
  \<^verbatim>\<open>to_csv(sep=',', index=False)\<close>: the header and the rows, one per line, through
  Python's csv writer with its minimal quoting.
\<close>

definition cell_text :: "cell \<Rightarrow> string" where
  "cell_text c = (case c of Str s \<Rightarrow> s | Num n \<Rightarrow> str_int n)"

definition csv_field :: "string \<Rightarrow> string" where
  "csv_field s =
     (if (\<exists>c \<in> set s. c = CHR '','' \<or> c = CHR 0x22 \<or> c = CHR 0x0A)
      then [CHR 0x22] @ concat (map (\<lambda>c. if c = CHR 0x22 then [c, c] else [c]) s) @ [CHR 0x22]
      else s)"

primrec join :: "string \<Rightarrow> string list \<Rightarrow> string" where
  "join sep [] = []"
| "join sep (x # xs) = (if xs = [] then x else x @ sep @ join sep xs)"

definition csv_line :: "string list \<Rightarrow> string" where
  "csv_line fs =
     (if fs = [[]] then [CHR 0x22, CHR 0x22] else join '','' (map csv_field fs))
     @ [CHR 0x0A]"

definition to_csv :: "frame \<Rightarrow> string" where
  "to_csv f = csv_line (columns f) @ concat (map (\<lambda>(l, r). csv_line (map cell_text r)) (rows f))"

definition isdigit :: "char \<Rightarrow> bool" where
  "isdigit c = (c \<in> set ''0123456789'')"

text \<open>
  \<^verbatim>\<open>sub(r'(Unnamed: )[0-9]+', '', content)\<close>: from the left, every match (the marker
  and all the digits after it) is taken out.
\<close>

function sub_unnamed :: "string \<Rightarrow> string" where
  "sub_unnamed [] = []"
| "sub_unnamed (c # cs) =
     (if starts_with ''Unnamed: '' (c # cs) \<and> (case drop 9 (c # cs) of [] \<Rightarrow> False | d # ds \<Rightarrow> isdigit d)
      then sub_unnamed (dropWhile isdigit (drop 9 (c # cs)))
      else c # sub_unnamed cs)"
  by pat_completeness auto
termination
proof (relation "measure length")
  show "wf (measure length)"
    by simp
next
  fix c :: char and cs :: string
  have "length (dropWhile isdigit (drop 9 (c # cs))) \<le> length (drop 9 (c # cs))"
    by (rule length_dropWhile_le)
  also have "\<dots> < length (c # cs)"
    by simp
  finally show "(dropWhile isdigit (drop 9 (c # cs)), c # cs) \<in> measure length"
    by simp
next
  fix c :: char and cs :: string
  show "(cs, c # cs) \<in> measure length"
    by simp
qed

text \<open>\<^verbatim>\<open>fix_headers\<close> reads the file in text mode and writes the result back.\<close>

definition fix_headers :: "string \<Rightarrow> string" where
  "fix_headers stored = sub_unnamed (read_text stored)"

text \<open>\<^verbatim>\<open>df.drop([name], axis=1)\<close>: a frame without the column; the argument is not changed.\<close>

definition drop_column :: "frame \<Rightarrow> string \<Rightarrow> error + frame" where
  "drop_column f name =
     (case col_pos name (columns f) of
        None \<Rightarrow> Inl KeyError
      | Some j \<Rightarrow>
          Inr \<lparr>columns = take j (columns f) @ drop (Suc j) (columns f),
               rows = map (\<lambda>(l, r). (l, take j r @ drop (Suc j) r)) (rows f)\<rparr>)"

text \<open>\<^verbatim>\<open>df[name]\<close> and \<^verbatim>\<open>df.drop([name], axis=1)\<close> where the name may be \<^verbatim>\<open>None\<close>.\<close>

definition column_of :: "frame \<Rightarrow> string option \<Rightarrow> error + cell list" where
  "column_of f name = (case name of None \<Rightarrow> Inl KeyError | Some b \<Rightarrow> column f b)"

definition drop_column_of :: "frame \<Rightarrow> string option \<Rightarrow> error + frame" where
  "drop_column_of f name = (case name of None \<Rightarrow> Inl KeyError | Some b \<Rightarrow> drop_column f b)"

subsection \<open>The statements of a method in sequence\<close>

text \<open>
  An exception ends the method where it is raised, with the instance as it is then: the
  next block of statements runs only after a block that ended normally.
\<close>

definition and_then ::
  "error option \<times> validator \<Rightarrow> (validator \<Rightarrow> error option \<times> validator)
     \<Rightarrow> error option \<times> validator" where
  "and_then res next_block =
     (case res of (Some e, s) \<Rightarrow> (Some e, s) | (None, s) \<Rightarrow> next_block s)"

text \<open>Lines 64 to 66 and 108 to 110: the repair, when an unnamed last column was found.\<close>

definition fix_columns :: "validator \<Rightarrow> error option \<times> validator" where
  "fix_columns self =
     (let s1 = linfo ''Fixing columns...'' self
      in if truthy (bad_token_column s1) then fix_token_position s1 else (None, s1))"

subsection \<open>\<^verbatim>\<open>run_delete\<close>\<close>

text \<open>Lines 68 to 75: the duplicates are dropped and counted.\<close>

definition remove_duplicates :: "validator \<Rightarrow> error option \<times> validator" where
  "remove_duplicates self =
     (let s1 = linfo ''Checking responses with duplicated tokens...'' self;
          previous_amount = int (length (rows (df s1)))
      in case delete_older_duplicates False s1 of
           (Inl e, s2) \<Rightarrow> (Some e, s2)
         | (Inr none, s2) \<Rightarrow>
            (let new_amount = int (length (rows (df s2)));
                 duplicates_deleted = previous_amount - new_amount;
                 s3 = s2\<lparr>deleted := deleted s2 + duplicates_deleted\<rparr>
             in (None, linfo (''Removed '' @ str_int duplicates_deleted @ '' duplicates.'') s3)))"

text \<open>Lines 77 to 88: the validation loop over the rows after the first.\<close>

definition delete_invalid :: "validator \<Rightarrow> error option \<times> validator" where
  "delete_invalid self =
     (let s1 = linfo ''Validating responses...'' self
      in validate_delete (columns (df s1)) (drop 1 (rows (df s1))) s1)"

text \<open>
  Lines 90 to 94. Line 94 calls \<^verbatim>\<open>self.df.drop\<close> without \<^verbatim>\<open>inplace=True\<close> and does
  not use the frame it returns: only an exception of the call could have an effect.
\<close>

definition remove_bad_token_column :: "validator \<Rightarrow> error option \<times> validator" where
  "remove_bad_token_column self =
     (if truthy (bad_token_column self)
      then (case column_of (df self) (bad_token_column self) of
              Inl e \<Rightarrow> (Some e, self)
            | Inr vs \<Rightarrow>
               (let s1 = (if vs \<noteq> []
                          then lwarn ''bad_token_column is not empty. Dropping anyway...'' self
                          else self)
                in case drop_column_of (df s1) (bad_token_column s1) of
                     Inl e \<Rightarrow> (Some e, s1)
                   | Inr unused \<Rightarrow> (None, s1)))
      else (None, self))"

text \<open>Lines 96 to 102: the frame is written, and the written text goes through
  \<^verbatim>\<open>fix_headers\<close>.\<close>

definition write_csv :: "validator \<Rightarrow> error option \<times> validator" where
  "write_csv self =
     (let s1 = self\<lparr>output_file := Some (to_csv (df self))\<rparr>;
          s2 = linfo ''Fixing headers...'' s1
      in (None, s2\<lparr>output_file := map_option fix_headers (output_file s2)\<rparr>))"

definition run_delete :: "validator \<Rightarrow> error option \<times> validator" where
  "run_delete self =
     and_then (and_then (and_then (and_then (fix_columns self)
       remove_duplicates) delete_invalid) remove_bad_token_column) write_csv"

subsection \<open>\<^verbatim>\<open>run_list\<close>\<close>

text \<open>
  Lines 112 to 116: the identifiers of the marked rows start the list.
  \<^verbatim>\<open>self.df[duplicates]\<close> with \<^verbatim>\<open>None\<close> for the mask would be a \<^verbatim>\<open>KeyError\<close>.
\<close>

definition list_duplicates :: "validator \<Rightarrow> error option \<times> validator" where
  "list_duplicates self =
     (let s1 = linfo ''Checking responses with duplicated tokens...'' self
      in case delete_older_duplicates True s1 of
           (Inl e, s2) \<Rightarrow> (Some e, s2)
         | (Inr duplicates, s2) \<Rightarrow>
            (case (case duplicates of
                     None \<Rightarrow> Inl KeyError
                   | Some marks \<Rightarrow> column (select_rows (df s2) marks) ID_FIELD) of
               Inl e \<Rightarrow> (Some e, s2)
             | Inr ids \<Rightarrow>
                (let s3 = s2\<lparr>to_delete := ids\<rparr>
                 in (None, linfo (''Found '' @ str_nat (length (to_delete s3)) @ '' duplicates.'') s3))))"

text \<open>Lines 118 to 130: the validation loop over the rows after the first.\<close>

definition list_invalid :: "validator \<Rightarrow> error option \<times> validator" where
  "list_invalid self =
     (let s1 = linfo ''Validating responses...'' self
      in validate_list (columns (df s1)) (drop 1 (rows (df s1))) s1)"

text \<open>Lines 132 to 134: the column is read whether or not its name is \<^verbatim>\<open>None\<close>.\<close>

definition check_bad_token_column :: "validator \<Rightarrow> error option \<times> validator" where
  "check_bad_token_column self =
     (case column_of (df self) (bad_token_column self) of
        Inl e \<Rightarrow> (Some e, self)
      | Inr vs \<Rightarrow>
          (None, if vs \<noteq> [] then lwarn ''bad_token_column is not empty.'' self else self))"

text \<open>
  \<^verbatim>\<open>[elem for index, elem in enumerate(self.to_delete) if not elem in self.to_delete[:index]]\<close>
\<close>

definition clean :: "'a list \<Rightarrow> 'a list" where
  "clean xs = map snd (filter (\<lambda>(index, elem). elem \<notin> set (take index xs)) (enumerate 0 xs))"

text \<open>
  The writing loop: \<^verbatim>\<open>elem + '\n'\<close> is a \<^verbatim>\<open>TypeError\<close> on a number, and what was written
  before it stays in the file.
\<close>

fun write_lines :: "cell list \<Rightarrow> string \<Rightarrow> error option \<times> string" where
  "write_lines [] content = (None, content)"
| "write_lines (elem # rest) content =
     (case elem of
        Str s \<Rightarrow> write_lines rest (content @ s @ [CHR 0x0A])
      | Num n \<Rightarrow> (Some TypeError, content))"

text \<open>Lines 136 to 144: the list without repetitions is written, one identifier a line.\<close>

definition write_list :: "validator \<Rightarrow> error option \<times> validator" where
  "write_list self =
     (let clean_to_delete = clean (to_delete self)
      in case write_lines clean_to_delete [] of
           (Some e, content) \<Rightarrow> (Some e, self\<lparr>output_file := Some content\<rparr>)
         | (None, content) \<Rightarrow>
             (None, self\<lparr>output_file := Some content,
                         deleted := int (length clean_to_delete)\<rparr>))"

definition run_list :: "validator \<Rightarrow> error option \<times> validator" where
  "run_list self =
     and_then (and_then (and_then (and_then (fix_columns self)
       list_duplicates) list_invalid) check_bad_token_column) write_list"

subsection \<open>\<^verbatim>\<open>run\<close>\<close>

text \<open>
  The two input files are given as what they hold, \<^verbatim>\<open>None\<close> for a file that does not
  exist. A missing survey file is caught: the error is logged and \<^verbatim>\<open>sysexit(1)\<close> raises
  \<^verbatim>\<open>SystemExit\<close>. The \<^verbatim>\<open>open\<close> of the token file stands outside every \<^verbatim>\<open>try\<close>.
\<close>

definition run ::
  "inference \<Rightarrow> tokenised option \<Rightarrow> string option \<Rightarrow> validator \<Rightarrow> error option \<times> validator" where
  "run infer survey tokens self =
     (let s1 = lverbose ''Opening files...'' self
      in case survey of
           None \<Rightarrow> (Some (SystemExit 1), lerr ''Survey file not found.'' s1)
         | Some file \<Rightarrow>
            (let s2 = s1\<lparr>df := read_csv infer converters file\<rparr>
             in case tokens of
                  None \<Rightarrow> (Some FileNotFoundError, s2)
                | Some content \<Rightarrow>
                   (let s3 = s2\<lparr>token_list := split_lines (read_text content)\<rparr>;
                        s4 = s3\<lparr>total_responses := int (length (rows (df s3))) - 1\<rparr>
                    in if columns (df s4) = [] then (Some IndexError, s4)
                       else
                         (let name = last (columns (df s4));
                              s5 = s4\<lparr>bad_token_column :=
                                        (if \<not> contains ''Unnamed'' name then None else Some name)\<rparr>
                          in if list_only s5 then run_list s5 else run_delete s5))))"

subsection \<open>Sample inputs\<close>

text \<open>
  An inference that keeps every field as text, and the integer case of pandas's own: a
  column whose fields are all decimal numerals is a column of integers.
\<close>

definition plain_inference :: inference where
  "plain_inference col raw = Str raw"

definition parse_nat :: "string \<Rightarrow> nat" where
  "parse_nat s = foldl (\<lambda>n c. 10 * n + (of_char c - 48)) 0 s"

definition numeric_inference :: inference where
  "numeric_inference col raw =
     (if col \<noteq> [] \<and> list_all (\<lambda>f. f \<noteq> [] \<and> list_all isdigit f) col
      then Num (int (parse_nat raw)) else Str raw)"

definition token_A :: string where
  "token_A = replicate 64 (CHR ''A'')"

definition token_B :: string where
  "token_B = replicate 64 (CHR ''B'')"

text \<open>A frame in which row 2 repeats the token of row 0 and row 3 the token of row 1.\<close>

definition dup_frame :: frame where
  "dup_frame =
     \<lparr>columns = [''Respondent ID'', ''wca_token''],
      rows = [(0, [Str ''id'', Str ''tok'']), (1, [Str ''1'', Str ''a'']),
              (2, [Str ''2'', Str ''tok'']), (3, [Str ''3'', Str ''a''])]\<rparr>"

definition dup_self :: validator where
  "dup_self = (init False)\<lparr>df := dup_frame, token_list := [''a'']\<rparr>"

text \<open>A frame whose row 2 has a blank token, with a token list that holds the empty string.\<close>

definition blank_frame :: frame where
  "blank_frame =
     \<lparr>columns = [''Respondent ID'', ''wca_token'', ''Unnamed: 2''],
      rows = [(0, [Str ''id'', Str ''tok'', Str []]), (1, [Str ''1'', Str ''good'', Str []]),
              (2, [Str ''2'', Str ''  '', Str []])]\<rparr>"

definition blank_self :: validator where
  "blank_self =
     (init False)\<lparr>df := blank_frame, token_list := [''good'', []],
                   bad_token_column := Some ''Unnamed: 2''\<rparr>"

text \<open>A frame whose rows 1 and 2 both have an empty token.\<close>

definition twice_frame :: frame where
  "twice_frame =
     \<lparr>columns = [''Respondent ID'', ''wca_token'', ''Unnamed: 2''],
      rows = [(0, [Str ''id'', Str ''tok'', Str []]), (1, [Str ''1'', Str [], Str []]),
              (2, [Str ''2'', Str [], Str []])]\<rparr>"

definition twice_self :: validator where
  "twice_self =
     (init True)\<lparr>df := twice_frame, token_list := [''good''],
                  bad_token_column := Some ''Unnamed: 2''\<rparr>"

text \<open>
  A survey file whose last header field is empty: response 2 has a blank token and a token
  of 64 characters in the column without a header. The token file holds both tokens.
\<close>

definition overflow_survey :: tokenised where
  "overflow_survey =
     ([''Respondent ID'', ''wca_token'', []],
      [[''id'', ''tok'', []], [''1'', token_A, []], [''2'', '' '', token_B]])"

definition both_tokens :: string where
  "both_tokens = token_A @ [CHR 0x0A] @ token_B"

text \<open>The instance as \<^verbatim>\<open>run\<close> hands it to \<^verbatim>\<open>run_delete\<close> for that input.\<close>

definition overflow_self :: validator where
  "overflow_self =
     (init False)\<lparr>df := read_csv plain_inference converters overflow_survey,
                   token_list := split_lines (read_text both_tokens),
                   bad_token_column := Some ''Unnamed: 2''\<rparr>"

text \<open>A survey file with no column without a header.\<close>

definition plain_survey :: tokenised where
  "plain_survey = ([''Respondent ID'', ''wca_token''], [[''id'', ''tok''], [''1'', ''x'']])"

text \<open>A survey file of 401 columns, one response, every field the numeral 7.\<close>

definition wide_survey :: tokenised where
  "wide_survey = (map (\<lambda>j. CHR ''q'' # str_nat j) [0..<401], [replicate 401 ''7''])"

section \<open>Properties\<close>

subsection \<open>Auxiliary facts\<close>

lemma emit_fields [simp]:
  "df (emit lv msg s) = df s"
  "token_list (emit lv msg s) = token_list s"
  "to_delete (emit lv msg s) = to_delete s"
  "bad_token_column (emit lv msg s) = bad_token_column s"
  "output_file (emit lv msg s) = output_file s"
  "list_only (emit lv msg s) = list_only s"
  by (simp_all add: emit_def)

lemmas log_defs = lverbose_def linfo_def lwarn_def lerr_def

lemma is_valid_emit [simp]: "is_valid (emit lv msg s) t = is_valid s t"
  by (simp add: is_valid_def)

lemma length_duplicated: "length (duplicated vs) = length vs"
  by (simp add: duplicated_def)

lemma earlier_conv: "i \<le> length vs \<Longrightarrow> (v \<in> set (take i vs)) = (\<exists>j<i. vs ! j = v)"
  by (auto simp: in_set_conv_nth)

lemma duplicated_nth:
  "i < length vs \<Longrightarrow> duplicated vs ! i = (\<exists>j<i. vs ! j = vs ! i)"
  by (simp add: duplicated_def earlier_conv)

lemma unmarked_positions:
  "length ms = length xs \<Longrightarrow>
   map snd (filter (\<lambda>(m, r). \<not> m) (zip ms xs)) =
   map ((!) xs) (filter (\<lambda>i. \<not> ms ! i) [0..<length xs])"
proof (induction ms xs rule: list_induct2)
  case Nil
  show ?case by simp
next
  case (Cons m ms x xs)
  have upt: "[0..<length (x # xs)] = 0 # map Suc [0..<length xs]"
    by (simp add: upt_conv_Cons map_Suc_upt del: upt_Suc)
  show ?case
    unfolding upt using Cons.IH
    by (simp add: filter_map comp_def)
qed

lemma column_length: "column f name = Inr vs \<Longrightarrow> length vs = length (rows f)"
  by (auto simp: column_def split: option.splits)

lemma rows_drop_marked_duplicated:
  assumes "length tokens = length (rows f)"
  shows "rows (drop_marked f (duplicated tokens)) =
         map ((!) (rows f)) (filter (\<lambda>i. \<forall>j<i. tokens ! j \<noteq> tokens ! i) [0..<length (rows f)])"
proof -
  have "filter (\<lambda>i. \<not> duplicated tokens ! i) [0..<length (rows f)] =
        filter (\<lambda>i. \<forall>j<i. tokens ! j \<noteq> tokens ! i) [0..<length (rows f)]"
    using assms by (intro filter_cong) (auto simp: duplicated_nth)
  then show ?thesis
    using assms by (simp add: drop_marked_def unmarked_positions length_duplicated)
qed

lemma clean_snoc: "clean (xs @ [x]) = clean xs @ (if x \<in> set xs then [] else [x])"
proof -
  have "filter (\<lambda>(index, elem). elem \<notin> set (take index (xs @ [x]))) (enumerate 0 xs)
      = filter (\<lambda>(index, elem). elem \<notin> set (take index xs)) (enumerate 0 xs)"
    by (rule filter_cong) (auto simp: in_set_enumerate_eq)
  then show ?thesis
    by (simp add: clean_def enumerate_append_eq)
qed

lemma clean_Nil: "clean [] = []"
  by (simp add: clean_def)

lemma set_clean: "set (clean xs) = set xs"
  by (induction xs rule: rev_induct) (auto simp: clean_snoc clean_Nil)

lemma distinct_clean: "distinct (clean xs)"
  by (induction xs rule: rev_induct) (auto simp: clean_snoc clean_Nil set_clean)

lemma clean_positions:
  "clean xs = map ((!) xs) (filter (\<lambda>i. \<forall>j<i. xs ! j \<noteq> xs ! i) [0..<length xs])"
proof (induction xs rule: rev_induct)
  case Nil
  show ?case by (simp add: clean_Nil)
next
  case (snoc x xs)
  have old: "filter (\<lambda>i. \<forall>j<i. (xs @ [x]) ! j \<noteq> (xs @ [x]) ! i) [0..<length xs]
      = filter (\<lambda>i. \<forall>j<i. xs ! j \<noteq> xs ! i) [0..<length xs]"
    by (rule filter_cong) (auto simp: nth_append)
  have new: "(\<forall>j<length xs. (xs @ [x]) ! j \<noteq> x) = (x \<notin> set xs)"
    by (auto simp: nth_append in_set_conv_nth)
  have same: "map ((!) (xs @ [x])) (filter (\<lambda>i. \<forall>j<i. xs ! j \<noteq> xs ! i) [0..<length xs])
      = map ((!) xs) (filter (\<lambda>i. \<forall>j<i. xs ! j \<noteq> xs ! i) [0..<length xs])"
    by (rule map_cong) (auto simp: nth_append)
  show ?case
    using snoc.IH by (simp add: clean_snoc old new same)
qed

lemma column_of_positions:
  assumes "column f name = Inr vs" and "\<forall>i \<in> set idxs. i < length (rows f)"
  shows "column (f\<lparr>rows := map ((!) (rows f)) idxs\<rparr>) name = Inr (map ((!) vs) idxs)"
  using assms
  by (auto simp: column_def split: option.splits)

text \<open>After the duplicates are dropped, the token column is the token column without its
  repetitions.\<close>

lemma column_drop_marked:
  assumes "column f name = Inr tokens"
  shows "column (drop_marked f (duplicated tokens)) name = Inr (clean tokens)"
proof -
  let ?idxs = "filter (\<lambda>i. \<forall>j<i. tokens ! j \<noteq> tokens ! i) [0..<length (rows f)]"
  have len: "length tokens = length (rows f)"
    using assms by (rule column_length)
  have "drop_marked f (duplicated tokens) = f\<lparr>rows := map ((!) (rows f)) ?idxs\<rparr>"
    using rows_drop_marked_duplicated [OF len] by (simp add: drop_marked_def)
  moreover have "column (f\<lparr>rows := map ((!) (rows f)) ?idxs\<rparr>) name
      = Inr (map ((!) tokens) ?idxs)"
    by (rule column_of_positions [OF assms]) simp
  ultimately show ?thesis
    by (simp add: clean_positions len)
qed

lemmas sample_defs =
  dup_self_def dup_frame_def blank_self_def blank_frame_def twice_self_def twice_frame_def init_def
  ID_FIELD_def WCA_TOKEN_FIELD_def WCA_TOKEN_LEN_def

subsection \<open>Facts about the repair\<close>

text \<open>The repair loop changes rows of the frame and nothing else.\<close>

lemma fix_rows_rows:
  "fix_rows cols bad view ps s = (e, s') \<Longrightarrow>
     \<exists>rs'. s' = s\<lparr>df := (df s)\<lparr>rows := rs'\<rparr>\<rparr>
         \<and> length rs' = length (rows (df s))
         \<and> (\<forall>q<length rs'. rs' ! q = rows (df s) ! q
               \<or> (\<exists>l r r'. (q, l, r) \<in> set ps \<and> fix_row cols bad r = Inr r' \<and> rs' ! q = (l, r')))"
proof (induction ps arbitrary: s)
  case Nil
  then have "s' = s\<lparr>df := (df s)\<lparr>rows := rows (df s)\<rparr>\<rparr>"
    by simp
  then show ?case
    by blast
next
  case (Cons x ps)
  obtain pos l r where x: "x = (pos, l, r)"
    by (cases x)
  show ?case
  proof (cases "fix_row cols bad r")
    case (Inl err)
    with Cons.prems x have "s' = s\<lparr>df := (df s)\<lparr>rows := rows (df s)\<rparr>\<rparr>"
      by simp
    then show ?thesis
      by blast
  next
    case (Inr r')
    let ?s1 = "if view then write_back pos (l, r') s else s"
    from Cons.prems x Inr have "fix_rows cols bad view ps ?s1 = (e, s')"
      by simp
    from Cons.IH [OF this] obtain rs' where
      s': "s' = ?s1\<lparr>df := (df ?s1)\<lparr>rows := rs'\<rparr>\<rparr>"
      and len: "length rs' = length (rows (df ?s1))"
      and each: "\<forall>q<length rs'. rs' ! q = rows (df ?s1) ! q
               \<or> (\<exists>l r r'. (q, l, r) \<in> set ps \<and> fix_row cols bad r = Inr r' \<and> rs' ! q = (l, r'))"
      by blast
    have a: "s' = s\<lparr>df := (df s)\<lparr>rows := rs'\<rparr>\<rparr>"
      using s' by (simp add: write_back_def)
    have b: "length rs' = length (rows (df s))"
      using len by (simp add: write_back_def)
    have c: "rs' ! q = rows (df s) ! q
               \<or> (\<exists>l r r'. (q, l, r) \<in> set (x # ps) \<and> fix_row cols bad r = Inr r' \<and> rs' ! q = (l, r'))"
      if q: "q < length rs'" for q
    proof -
      from each q consider "rs' ! q = rows (df ?s1) ! q"
        | "\<exists>l r r'. (q, l, r) \<in> set ps \<and> fix_row cols bad r = Inr r' \<and> rs' ! q = (l, r')"
        by blast
      then show ?thesis
      proof cases
        case 1
        show ?thesis
        proof (cases "view \<and> q = pos")
          case True
          with 1 q b have "rs' ! q = (l, r')"
            by (simp add: write_back_def)
          with True Inr x show ?thesis
            by auto
        next
          case False
          with 1 have "rs' ! q = rows (df s) ! q"
            by (auto simp: write_back_def)
          then show ?thesis ..
        qed
      next
        case 2
        then show ?thesis
          by auto
      qed
    qed
    from a b c show ?thesis
      by blast
  qed
qed

lemma fix_rows_copy: "fix_rows cols bad False ps s = (e, s') \<Longrightarrow> s' = s"
  by (induction ps arbitrary: s) (auto split: sum.splits)

lemma fix_rows_untouched:
  "fix_rows cols bad view ps s = (e, s') \<Longrightarrow> q \<notin> fst ` set ps \<Longrightarrow>
     rows (df s') ! q = rows (df s) ! q"
proof (induction ps arbitrary: s)
  case Nil
  then show ?case by simp
next
  case (Cons x ps)
  obtain pos l r where x: "x = (pos, l, r)"
    by (cases x)
  from Cons.prems(2) x have ne: "q \<noteq> pos" and rest: "q \<notin> fst ` set ps"
    by auto
  show ?case
  proof (cases "fix_row cols bad r")
    case (Inl err)
    with Cons.prems x show ?thesis
      by simp
  next
    case (Inr r')
    let ?s1 = "if view then write_back pos (l, r') s else s"
    from Cons.prems x Inr have "fix_rows cols bad view ps ?s1 = (e, s')"
      by simp
    from Cons.IH [OF this rest] ne show ?thesis
      by (simp add: write_back_def split: if_splits)
  qed
qed



text \<open>What the body of the loop does to the Series of a row.\<close>

lemma fix_row_cases:
  assumes "fix_row cols bad r = Inr r'"
  shows "r' = r
       \<or> (\<exists>b t v. bad = Some b
             \<and> getitem cols r WCA_TOKEN_FIELD = Inr (Str t) \<and> strip t = []
             \<and> getitem cols r b = Inr (Str v) \<and> length v = WCA_TOKEN_LEN
             \<and> r' = setitem cols r WCA_TOKEN_FIELD (Str (strip v)))"
  using assms
  by (auto simp: fix_row_def cell_strip_def cell_len_def
      split: sum.splits option.splits if_splits cell.splits)





text \<open>What the repair block leaves of the instance.\<close>

lemma fix_token_position_rows:
  assumes "fix_token_position s = (e, s')"
  shows "\<exists>rs'. s' = s\<lparr>df := (df s)\<lparr>rows := rs'\<rparr>\<rparr>
           \<and> list_all2 (same_or_repaired (columns (df s))) (rows (df s)) rs'"
proof -
  let ?cols = "columns (df s)"
  let ?ps = "enumerate 1 (drop 1 (rows (df s)))"
  from assms have "fix_rows ?cols (bad_token_column s) (one_block (df s)) ?ps s = (e, s')"
    by (simp add: fix_token_position_def)
  from fix_rows_rows [OF this] obtain rs' where
    s': "s' = s\<lparr>df := (df s)\<lparr>rows := rs'\<rparr>\<rparr>" and len: "length rs' = length (rows (df s))"
    and each: "\<forall>q<length rs'. rs' ! q = rows (df s) ! q
               \<or> (\<exists>l r r'. (q, l, r) \<in> set ?ps \<and> fix_row ?cols (bad_token_column s) r = Inr r'
                     \<and> rs' ! q = (l, r'))"
    by blast
  have "same_or_repaired ?cols (rows (df s) ! q) (rs' ! q)" if q: "q < length rs'" for q
  proof -
    from each q consider "rs' ! q = rows (df s) ! q"
      | l r r' where "(q, l, r) \<in> set ?ps" "fix_row ?cols (bad_token_column s) r = Inr r'"
          "rs' ! q = (l, r')"
      by blast
    then show ?thesis
    proof cases
      case 1
      then show ?thesis by simp
    next
      case 2
      from 2(1) have before: "rows (df s) ! q = (l, r)"
        by (auto simp: in_set_enumerate_eq)
      from fix_row_cases [OF 2(2)] 2(3) before show ?thesis
        by auto
    qed
  qed
  then have "list_all2 (same_or_repaired ?cols) (rows (df s)) rs'"
    using len by (simp add: list_all2_conv_all_nth)
  with s' show ?thesis
    by blast
qed

lemma list_all2_same: "list_all2 (same_or_repaired cols) rs rs"
  by (simp add: list_all2_conv_all_nth)

lemma fix_columns_rows:
  assumes "fix_columns s = (e, s')"
  shows "\<exists>rs'. s' = (linfo ''Fixing columns...'' s)\<lparr>df := (df s)\<lparr>rows := rs'\<rparr>\<rparr>
           \<and> list_all2 (same_or_repaired (columns (df s))) (rows (df s)) rs'"
proof (cases "truthy (bad_token_column s)")
  case True
  with assms have "fix_token_position (linfo ''Fixing columns...'' s) = (e, s')"
    by (simp add: fix_columns_def Let_def log_defs)
  from fix_token_position_rows [OF this] show ?thesis
    by (simp add: log_defs)
next
  case False
  with assms have "s' = (linfo ''Fixing columns...'' s)\<lparr>df := (df s)\<lparr>rows := rows (df s)\<rparr>\<rparr>"
    by (auto simp: fix_columns_def Let_def log_defs)
  with list_all2_same show ?thesis
    by blast
qed

lemma fix_columns_fields:
  "columns (df (snd (fix_columns s))) = columns (df s)"
  "bad_token_column (snd (fix_columns s)) = bad_token_column s"
  "token_list (snd (fix_columns s)) = token_list s"
  "to_delete (snd (fix_columns s)) = to_delete s"
  "output_file (snd (fix_columns s)) = output_file s"
proof -
  obtain e s' where r: "fix_columns s = (e, s')"
    by (cases "fix_columns s")
  from fix_columns_rows [OF r] obtain rs'
    where "s' = (linfo ''Fixing columns...'' s)\<lparr>df := (df s)\<lparr>rows := rs'\<rparr>\<rparr>"
    by blast
  with r show "columns (df (snd (fix_columns s))) = columns (df s)"
    "bad_token_column (snd (fix_columns s)) = bad_token_column s"
    "token_list (snd (fix_columns s)) = token_list s"
    "to_delete (snd (fix_columns s)) = to_delete s"
    "output_file (snd (fix_columns s)) = output_file s"
    by (simp_all add: log_defs)
qed

subsection \<open>The repair reaches the frame\<close>



text \<open>
  On the sample survey the repair puts the 64 characters into row 2 of the frame, and the
  run in delete mode keeps response 2.
\<close>

lemma column_repair_sample:
  "rows (df (snd (fix_token_position overflow_self))) =
     [(0, [Str ''id'', Str ''tok'', Str []]), (1, [Str ''1'', Str token_A, Str []]),
      (2, [Str ''2'', Str token_B, Str token_B])]"
  "labels (df (snd (run plain_inference (Some overflow_survey) (Some both_tokens) (init False))))
     = [0, 1, 2]"
  by code_simp+

subsection \<open>The Deduplicator keeps the first record of every token\<close>

text \<open>
  C4. \<^verbatim>\<open>delete_older_duplicates\<close> looks at the token column alone. In list mode it
  returns a mask as long as the frame that marks a row exactly when an earlier row has the
  same token, and leaves the instance as it was. In delete mode the frame keeps, in their
  order and with their labels, exactly the rows that no earlier row shares its token with:
  of the rows with one token the first stays and every later one is removed, so that
  afterwards every token of the column stands in it once. No other column takes part.
\<close>

theorem deduplicator_keeps_first:
  assumes "column (df self) WCA_TOKEN_FIELD = Inr tokens"
  shows "(\<exists>marks. delete_older_duplicates True self = (Inr (Some marks), self)
            \<and> length marks = length (rows (df self))
            \<and> (\<forall>i<length marks. marks ! i = (\<exists>j<i. tokens ! j = tokens ! i)))
       \<and> (\<exists>self' kept. delete_older_duplicates False self = (Inr None, self')
            \<and> columns (df self') = columns (df self)
            \<and> rows (df self') =
                map ((!) (rows (df self)))
                  (filter (\<lambda>i. \<forall>j<i. tokens ! j \<noteq> tokens ! i) [0..<length (rows (df self))])
            \<and> column (df self') WCA_TOKEN_FIELD = Inr kept
            \<and> distinct kept \<and> set kept = set tokens)"
proof -
  let ?f' = "drop_marked (df self) (duplicated tokens)"
  have len: "length tokens = length (rows (df self))"
    using assms by (rule column_length)
  have "delete_older_duplicates True self = (Inr (Some (duplicated tokens)), self)"
    using assms by (simp add: delete_older_duplicates_def)
  moreover have "length (duplicated tokens) = length (rows (df self))"
    by (simp add: length_duplicated len)
  moreover have "\<forall>i<length (duplicated tokens).
      duplicated tokens ! i = (\<exists>j<i. tokens ! j = tokens ! i)"
    by (simp add: length_duplicated duplicated_nth)
  ultimately have list_mode:
    "\<exists>marks. delete_older_duplicates True self = (Inr (Some marks), self)
            \<and> length marks = length (rows (df self))
            \<and> (\<forall>i<length marks. marks ! i = (\<exists>j<i. tokens ! j = tokens ! i))"
    by blast
  have "delete_older_duplicates False self = (Inr None, self\<lparr>df := ?f'\<rparr>)"
    using assms by (simp add: delete_older_duplicates_def)
  moreover have "columns ?f' = columns (df self)"
    by (simp add: drop_marked_def)
  moreover have "rows ?f' = map ((!) (rows (df self)))
      (filter (\<lambda>i. \<forall>j<i. tokens ! j \<noteq> tokens ! i) [0..<length (rows (df self))])"
    by (rule rows_drop_marked_duplicated [OF len])
  moreover have "column ?f' WCA_TOKEN_FIELD = Inr (clean tokens)"
    using assms by (rule column_drop_marked)
  moreover have "distinct (clean tokens)" and "set (clean tokens) = set tokens"
    by (rule distinct_clean, rule set_clean)
  ultimately have delete_mode:
    "\<exists>self' kept. delete_older_duplicates False self = (Inr None, self')
            \<and> columns (df self') = columns (df self)
            \<and> rows (df self') =
                map ((!) (rows (df self)))
                  (filter (\<lambda>i. \<forall>j<i. tokens ! j \<noteq> tokens ! i) [0..<length (rows (df self))])
            \<and> column (df self') WCA_TOKEN_FIELD = Inr kept
            \<and> distinct kept \<and> set kept = set tokens"
    by (intro exI [of _ "self\<lparr>df := ?f'\<rparr>"] exI [of _ "clean tokens"]) simp
  from list_mode delete_mode show ?thesis ..
qed

theorem deduplicator_keeps_first_witness:
  "column (df dup_self) WCA_TOKEN_FIELD = Inr [Str ''tok'', Str ''a'', Str ''tok'', Str ''a'']
   \<and> (\<exists>marks. delete_older_duplicates True dup_self = (Inr (Some marks), dup_self)
          \<and> length marks = length (rows (df dup_self))
          \<and> (\<forall>i<length marks.
                marks ! i = (\<exists>j<i. [Str ''tok'', Str ''a'', Str ''tok'', Str ''a''] ! j
                                   = [Str ''tok'', Str ''a'', Str ''tok'', Str ''a''] ! i)))
   \<and> (\<exists>self' kept. delete_older_duplicates False dup_self = (Inr None, self')
          \<and> columns (df self') = columns (df dup_self)
          \<and> rows (df self') =
              map ((!) (rows (df dup_self)))
                (filter (\<lambda>i. \<forall>j<i. [Str ''tok'', Str ''a'', Str ''tok'', Str ''a''] ! j
                                   \<noteq> [Str ''tok'', Str ''a'', Str ''tok'', Str ''a''] ! i)
                   [0..<length (rows (df dup_self))])
          \<and> column (df self') WCA_TOKEN_FIELD = Inr kept
          \<and> distinct kept
          \<and> set kept = set [Str ''tok'', Str ''a'', Str ''tok'', Str ''a''])"
proof -
  have col: "column (df dup_self) WCA_TOKEN_FIELD
      = Inr [Str ''tok'', Str ''a'', Str ''tok'', Str ''a'']"
    by (simp add: sample_defs column_def)
  show ?thesis
    using col deduplicator_keeps_first [OF col] by blast
qed

text \<open>On the sample frame the mask marks rows 2 and 3, and delete mode keeps rows 0 and 1.\<close>

lemma deduplicator_sample:
  "delete_older_duplicates True dup_self = (Inr (Some [False, False, True, True]), dup_self)"
  "rows (df (snd (delete_older_duplicates False dup_self))) =
     [(0, [Str ''id'', Str ''tok'']), (1, [Str ''1'', Str ''a''])]"
  by code_simp+

subsection \<open>The Deduplicator does not skip the first row\<close>

text \<open>
  C10. \<^verbatim>\<open>delete_older_duplicates\<close> has no \<^verbatim>\<open>iloc[1:]\<close>: the mask is as long as the
  frame and row 0 takes part in the comparison. Row 0 is never marked and stays the first
  row of the frame in delete mode. Every later row whose token cell equals the one of row 0
  (the empty text included, the cells are compared as they are) is marked in list mode,
  and in delete mode its label is no longer in the frame.
\<close>

theorem deduplicator_includes_first_row:
  assumes col: "column (df self) WCA_TOKEN_FIELD = Inr tokens"
      and nonempty: "rows (df self) \<noteq> []"
      and dist: "distinct (labels (df self))"
  shows "(\<exists>marks. delete_older_duplicates True self = (Inr (Some marks), self)
            \<and> length marks = length (rows (df self))
            \<and> \<not> marks ! 0
            \<and> (\<forall>i. 0 < i \<and> i < length marks \<and> tokens ! i = tokens ! 0 \<longrightarrow> marks ! i))
       \<and> (\<exists>self'. delete_older_duplicates False self = (Inr None, self')
            \<and> rows (df self') \<noteq> []
            \<and> hd (rows (df self')) = hd (rows (df self))
            \<and> (\<forall>i. 0 < i \<and> i < length (rows (df self)) \<and> tokens ! i = tokens ! 0
                   \<longrightarrow> fst (rows (df self) ! i) \<notin> set (labels (df self'))))"
proof -
  let ?rs = "rows (df self)"
  let ?n = "length ?rs"
  let ?first = "\<lambda>i. \<forall>j<i. tokens ! j \<noteq> tokens ! i"
  let ?f' = "drop_marked (df self) (duplicated tokens)"
  have len: "length tokens = ?n"
    using col by (rule column_length)
  have pos: "0 < ?n"
    using nonempty by simp
  have list_mode: "delete_older_duplicates True self = (Inr (Some (duplicated tokens)), self)"
    using col by (simp add: delete_older_duplicates_def)
  have m0: "\<not> duplicated tokens ! 0"
    using pos len by (simp add: duplicated_nth)
  have mi: "\<forall>i. 0 < i \<and> i < length (duplicated tokens) \<and> tokens ! i = tokens ! 0
              \<longrightarrow> duplicated tokens ! i"
    by (auto simp: length_duplicated duplicated_nth)
  have delete_mode: "delete_older_duplicates False self = (Inr None, self\<lparr>df := ?f'\<rparr>)"
    using col by (simp add: delete_older_duplicates_def)
  have kept: "rows ?f' = map ((!) ?rs) (filter ?first [0..<?n])"
    by (rule rows_drop_marked_duplicated [OF len])
  have upt: "[0..<?n] = 0 # [1..<?n]"
    using pos by (simp add: upt_conv_Cons del: upt_Suc)
  have kept0: "rows ?f' = ?rs ! 0 # map ((!) ?rs) (filter ?first [1..<?n])"
    unfolding kept upt by simp
  have hd0: "hd (rows ?f') = hd ?rs"
    using kept0 nonempty by (simp add: hd_conv_nth)
  have gone: "fst (?rs ! i) \<notin> set (labels ?f')"
    if i: "0 < i" "i < ?n" "tokens ! i = tokens ! 0" for i
  proof
    assume "fst (?rs ! i) \<in> set (labels ?f')"
    then obtain k where k: "k < ?n" "?first k" "fst (?rs ! k) = fst (?rs ! i)"
      unfolding labels_def kept by auto
    from dist k(1) k(3) i(2) have "k = i"
      by (auto simp: labels_def distinct_conv_nth)
    with k(2) i show False
      by auto
  qed
  show ?thesis
    using list_mode m0 mi delete_mode kept0 hd0 gone
    by (simp add: length_duplicated len)
qed

theorem deduplicator_includes_first_row_witness:
  "column (df dup_self) WCA_TOKEN_FIELD = Inr [Str ''tok'', Str ''a'', Str ''tok'', Str ''a'']
   \<and> rows (df dup_self) \<noteq> []
   \<and> distinct (labels (df dup_self))
   \<and> (\<exists>marks. delete_older_duplicates True dup_self = (Inr (Some marks), dup_self)
          \<and> length marks = length (rows (df dup_self))
          \<and> \<not> marks ! 0
          \<and> (\<forall>i. 0 < i \<and> i < length marks
                   \<and> [Str ''tok'', Str ''a'', Str ''tok'', Str ''a''] ! i
                       = [Str ''tok'', Str ''a'', Str ''tok'', Str ''a''] ! 0
                 \<longrightarrow> marks ! i))
   \<and> (\<exists>self'. delete_older_duplicates False dup_self = (Inr None, self')
          \<and> rows (df self') \<noteq> []
          \<and> hd (rows (df self')) = hd (rows (df dup_self))
          \<and> (\<forall>i. 0 < i \<and> i < length (rows (df dup_self))
                   \<and> [Str ''tok'', Str ''a'', Str ''tok'', Str ''a''] ! i
                       = [Str ''tok'', Str ''a'', Str ''tok'', Str ''a''] ! 0
                 \<longrightarrow> fst (rows (df dup_self) ! i) \<notin> set (labels (df self'))))"
proof -
  have col: "column (df dup_self) WCA_TOKEN_FIELD
      = Inr [Str ''tok'', Str ''a'', Str ''tok'', Str ''a'']"
    by (simp add: sample_defs column_def)
  have nonempty: "rows (df dup_self) \<noteq> []"
    by (simp add: sample_defs)
  have dist: "distinct (labels (df dup_self))"
    by (simp add: sample_defs labels_def)
  show ?thesis
    using col nonempty dist deduplicator_includes_first_row [OF col nonempty dist] by blast
qed

text \<open>
  On the sample frame row 2 carries the token of row 0: it is marked, and delete mode
  removes it while row 0 stays.
\<close>

lemma first_row_sample:
  "fst (delete_older_duplicates True dup_self) = Inr (Some [False, False, True, True])"
  "labels (df (snd (delete_older_duplicates False dup_self))) = [0, 1]"
  by code_simp+

subsection \<open>Facts about the validation loops\<close>

lemma delete_row_None:
  assumes "delete_row i s = (None, s')"
  shows "labels (df s') = filter (\<lambda>l. l \<noteq> i) (labels (df s))"
    and "token_list s' = token_list s"
    and "columns (df s') = columns (df s)"
  using assms
  by (auto simp: delete_row_def drop_label_def labels_def log_defs Let_def filter_map comp_def
      case_prod_unfold split: if_splits)

lemma delete_row_present:
  "i \<in> set (labels (df s)) \<Longrightarrow> \<exists>s'. delete_row i s = (None, s')"
  by (simp add: delete_row_def drop_label_def log_defs Let_def labels_def)

lemma delete_row_subset:
  "delete_row i s = (None, s') \<Longrightarrow> set (labels (df s')) \<subseteq> set (labels (df s))"
  by (auto dest: delete_row_None(1))

lemma validate_delete_step:
  assumes "validate_delete cols ((i, r) # rs) s = (None, s')"
  shows "\<exists>s1. validate_delete cols rs s1 = (None, s')
              \<and> set (labels (df s1)) \<subseteq> set (labels (df s))"
proof -
  from assms obtain c t where c: "getitem cols r WCA_TOKEN_FIELD = Inr c" "cell_strip c = Inr t"
    by (auto split: sum.splits)
  show ?thesis
  proof (cases "\<not> is_valid s t \<or> t = []")
    case True
    let ?s0 = "linfo (''#'' @ str_nat i @ '' >> Invalid token'') s"
    from assms c True obtain s1 where d: "delete_row i ?s0 = (None, s1)"
      and v: "validate_delete cols rs s1 = (None, s')"
      by (auto split: option.splits prod.splits)
    from delete_row_subset [OF d] have "set (labels (df s1)) \<subseteq> set (labels (df s))"
      by (simp add: log_defs)
    with v show ?thesis
      by blast
  next
    case False
    with assms c
    have "validate_delete cols rs (lverbose (''#'' @ str_nat i @ '' >> OK'') s) = (None, s')"
      by simp
    moreover have "set (labels (df (lverbose (''#'' @ str_nat i @ '' >> OK'') s)))
        \<subseteq> set (labels (df s))"
      by (simp add: log_defs)
    ultimately show ?thesis
      by blast
  qed
qed

lemma validate_delete_labels:
  "validate_delete cols rs s = (None, s') \<Longrightarrow> set (labels (df s')) \<subseteq> set (labels (df s))"
proof (induction rs arbitrary: s)
  case Nil
  then show ?case by simp
next
  case (Cons p rs)
  obtain i r where p: "p = (i, r)" by (cases p)
  from validate_delete_step [OF Cons.prems [unfolded p]] obtain s1
    where "validate_delete cols rs s1 = (None, s')"
      and "set (labels (df s1)) \<subseteq> set (labels (df s))"
    by blast
  with Cons.IH [of s1] show ?case
    by blast
qed

text \<open>A run of the loop that ends without an exception has removed every blank-token row.\<close>

lemma validate_delete_removes:
  assumes "validate_delete cols rs s = (None, s')"
      and "(l, r) \<in> set rs"
      and "getitem cols r WCA_TOKEN_FIELD = Inr (Str t)"
      and "strip t = []"
  shows "l \<notin> set (labels (df s'))"
  using assms
proof (induction rs arbitrary: s)
  case Nil
  then show ?case by simp
next
  case (Cons p rs)
  obtain i r0 where p: "p = (i, r0)" by (cases p)
  show ?case
  proof (cases "(l, r) = p")
    case True
    with Cons.prems p obtain s1 where
      d: "delete_row l (linfo (''#'' @ str_nat l @ '' >> Invalid token'') s) = (None, s1)"
      and v: "validate_delete cols rs s1 = (None, s')"
      by (auto simp: cell_strip_def split: sum.splits if_splits option.splits prod.splits)
    from delete_row_None(1) [OF d] have "l \<notin> set (labels (df s1))"
      by simp
    with validate_delete_labels [OF v] show ?thesis
      by blast
  next
    case False
    with Cons.prems have mem: "(l, r) \<in> set rs"
      by auto
    from validate_delete_step [OF Cons.prems(1) [unfolded p]]
    obtain s1 where "validate_delete cols rs s1 = (None, s')"
      by blast
    from Cons.IH [OF this mem Cons.prems(3) Cons.prems(4)] show ?thesis .
  qed
qed

text \<open>The loop ends without an exception when every token cell is text and the labels of
  the rows are different labels of the frame.\<close>

lemma validate_delete_completes:
  assumes "\<forall>(l, r) \<in> set rs. \<exists>t. getitem cols r WCA_TOKEN_FIELD = Inr (Str t)"
      and "distinct (map fst rs)"
      and "set (map fst rs) \<subseteq> set (labels (df s))"
  shows "\<exists>s'. validate_delete cols rs s = (None, s')"
  using assms
proof (induction rs arbitrary: s)
  case Nil
  then show ?case by simp
next
  case (Cons p rs)
  obtain i r where p: "p = (i, r)" by (cases p)
  from Cons.prems(1) p obtain t where t: "getitem cols r WCA_TOKEN_FIELD = Inr (Str t)"
    by auto
  have rest: "\<forall>(l, r) \<in> set rs. \<exists>t. getitem cols r WCA_TOKEN_FIELD = Inr (Str t)"
    using Cons.prems(1) by auto
  have dist: "distinct (map fst rs)" and fresh: "i \<notin> set (map fst rs)"
    using Cons.prems(2) p by auto
  show ?case
  proof (cases "\<not> is_valid s (strip t) \<or> strip t = []")
    case True
    let ?s0 = "linfo (''#'' @ str_nat i @ '' >> Invalid token'') s"
    have "i \<in> set (labels (df ?s0))"
      using Cons.prems(3) p by (simp add: log_defs)
    then obtain s1 where d: "delete_row i ?s0 = (None, s1)"
      using delete_row_present by blast
    have "set (map fst rs) \<subseteq> set (labels (df s1))"
      using delete_row_None(1) [OF d] Cons.prems(3) fresh p by (auto simp: log_defs)
    from Cons.IH [OF rest dist this] obtain s' where "validate_delete cols rs s1 = (None, s')" ..
    with True t d show ?thesis
      unfolding p by (simp add: cell_strip_def)
  next
    case False
    let ?s0 = "lverbose (''#'' @ str_nat i @ '' >> OK'') s"
    have "set (map fst rs) \<subseteq> set (labels (df ?s0))"
      using Cons.prems(3) p by (auto simp: log_defs)
    from Cons.IH [OF rest dist this] obtain s' where "validate_delete cols rs ?s0 = (None, s')" ..
    with False t show ?thesis
      unfolding p by (simp add: cell_strip_def)
  qed
qed

text \<open>The loop of list mode changes the list and the log, and nothing else.\<close>

lemma validate_list_frame:
  "validate_list cols rs s = (e, s') \<Longrightarrow>
     df s' = df s \<and> bad_token_column s' = bad_token_column s \<and> output_file s' = output_file s
     \<and> token_list s' = token_list s
     \<and> (\<exists>more. to_delete s' = to_delete s @ more)"
proof (induction rs arbitrary: s)
  case Nil
  then show ?case by simp
next
  case (Cons p rs)
  obtain i r where p: "p = (i, r)" by (cases p)
  from Cons.prems show ?case
    unfolding p
    by (auto simp: log_defs Let_def split: sum.splits if_splits dest!: Cons.IH)
qed

lemma validate_list_lists:
  assumes "validate_list cols rs s = (None, s')"
      and "(l, r) \<in> set rs"
      and "getitem cols r WCA_TOKEN_FIELD = Inr (Str t)"
      and "strip t = []"
      and "column (df s) ID_FIELD = Inr ids"
  shows "l < length ids \<and> ids ! l \<in> set (to_delete s')"
  using assms
proof (induction rs arbitrary: s)
  case Nil
  then show ?case by simp
next
  case (Cons p rs)
  obtain i r0 where p: "p = (i, r0)" by (cases p)
  show ?case
  proof (cases "(l, r) = p")
    case True
    with Cons.prems p have l: "l < length ids"
      and v: "validate_list cols rs (s\<lparr>to_delete := to_delete s @ [ids ! l]\<rparr>) = (None, s')"
      by (auto simp: cell_strip_def iloc_def split: if_splits)
    from validate_list_frame [OF v] obtain more
      where "to_delete s' = (to_delete s @ [ids ! l]) @ more"
      by auto
    with l show ?thesis
      by simp
  next
    case False
    with Cons.prems have mem: "(l, r) \<in> set rs"
      by auto
    from Cons.prems(1) obtain s1 where v: "validate_list cols rs s1 = (None, s')"
      and "df s1 = df s"
      unfolding p
      by (auto simp: log_defs Let_def split: sum.splits if_splits)
    with Cons.IH [OF v mem Cons.prems(3) Cons.prems(4)] Cons.prems(5) show ?thesis
      by simp
  qed
qed

lemma validate_list_completes:
  assumes "\<forall>(l, r) \<in> set rs. \<exists>t. getitem cols r WCA_TOKEN_FIELD = Inr (Str t)"
      and "column (df s) ID_FIELD = Inr ids"
      and "\<forall>(l, r) \<in> set rs. l < length ids"
  shows "\<exists>s'. validate_list cols rs s = (None, s')"
  using assms
proof (induction rs arbitrary: s)
  case Nil
  then show ?case by simp
next
  case (Cons p rs)
  obtain i r where p: "p = (i, r)" by (cases p)
  from Cons.prems(1) p obtain t where t: "getitem cols r WCA_TOKEN_FIELD = Inr (Str t)"
    by auto
  have rest: "\<forall>(l, r) \<in> set rs. \<exists>t. getitem cols r WCA_TOKEN_FIELD = Inr (Str t)"
    and bound: "\<forall>(l, r) \<in> set rs. l < length ids" and i: "i < length ids"
    using Cons.prems(1,3) p by auto
  have step: "\<exists>s'. validate_list cols rs s1 = (None, s')" if "df s1 = df s" for s1
    using Cons.IH [OF rest _ bound, of s1] Cons.prems(2) that by simp
  show ?case
    unfolding p using t i Cons.prems(2) step
    by (simp add: cell_strip_def iloc_def log_defs Let_def)
qed

text \<open>In a frame whose labels are the positions, a row stands at its label.\<close>

lemma row_at_label:
  assumes "labels f = [0..<length (rows f)]" and "(l, r) \<in> set (rows f)"
  shows "l < length (rows f) \<and> rows f ! l = (l, r)"
proof -
  from assms(2) obtain k where k: "k < length (rows f)" "rows f ! k = (l, r)"
    by (auto simp: in_set_conv_nth)
  from k have "labels f ! k = l"
    by (simp add: labels_def)
  with assms(1) k(1) have "k = l"
    by simp
  with k show ?thesis
    by simp
qed

lemma column_at_row:
  assumes "column f name = Inr ids" and "getitem (columns f) r name = Inr c"
      and "k < length (rows f)" and "rows f ! k = (l, r)"
  shows "ids ! k = c"
  using assms
  by (auto simp: column_def getitem_def split: option.splits if_splits)

lemma column_exists:
  "getitem (columns f) r name = Inr c \<Longrightarrow> \<exists>ids. column f name = Inr ids"
  by (auto simp: column_def getitem_def split: option.splits)

subsection \<open>A record with a blank token fails validation\<close>

text \<open>
  C5. Take a frame whose token cells are text, as the Loader builds them, and a record
  after the first row whose token is empty once stripped. Whatever the token list holds
  (so also when \<^verbatim>\<open>is_valid\<close> accepts the empty text, as it does for a token file
  with an empty line), the validation loop of delete mode ends without an exception and
  the record's label is no longer in the frame, and the loop of list mode ends without an
  exception with the record's identifier in \<^verbatim>\<open>to_delete\<close>. Delete mode needs the
  labels to be distinct, as they are after the Deduplicator; list mode reads the identifier
  by position, and the labels are the positions there.
\<close>

theorem empty_token_fails_validation:
  assumes rec: "(l, r) \<in> set (drop 1 (rows (df self)))"
      and tok: "getitem (columns (df self)) r WCA_TOKEN_FIELD = Inr (Str t)"
      and blank: "strip t = []"
      and strs: "\<forall>(l', r') \<in> set (drop 1 (rows (df self))).
                   \<exists>t'. getitem (columns (df self)) r' WCA_TOKEN_FIELD = Inr (Str t')"
  shows "(distinct (labels (df self)) \<longrightarrow>
            (\<exists>sd. validate_delete (columns (df self)) (drop 1 (rows (df self))) self = (None, sd)
                  \<and> l \<notin> set (labels (df sd))))
       \<and> (labels (df self) = [0..<length (rows (df self))]
            \<and> getitem (columns (df self)) r ID_FIELD = Inr ident \<longrightarrow>
            (\<exists>sl. validate_list (columns (df self)) (drop 1 (rows (df self))) self = (None, sl)
                  \<and> ident \<in> set (to_delete sl)))"
proof (intro conjI impI)
  let ?cols = "columns (df self)"
  let ?rs = "drop 1 (rows (df self))"
  assume dist: "distinct (labels (df self))"
  have "map fst ?rs = drop 1 (labels (df self))"
    by (simp add: labels_def drop_map)
  then have d: "distinct (map fst ?rs)" and sub: "set (map fst ?rs) \<subseteq> set (labels (df self))"
    using dist by (auto dest: in_set_dropD)
  from validate_delete_completes [OF strs d sub]
  obtain sd where sd: "validate_delete ?cols ?rs self = (None, sd)" ..
  from validate_delete_removes [OF sd rec tok blank] sd
  show "\<exists>sd. validate_delete ?cols ?rs self = (None, sd) \<and> l \<notin> set (labels (df sd))"
    by blast
next
  let ?cols = "columns (df self)"
  let ?rs = "drop 1 (rows (df self))"
  assume a: "labels (df self) = [0..<length (rows (df self))]
             \<and> getitem ?cols r ID_FIELD = Inr ident"
  then have positions: "labels (df self) = [0..<length (rows (df self))]"
    and ident: "getitem ?cols r ID_FIELD = Inr ident"
    by simp_all
  from column_exists [OF ident] obtain ids where ids: "column (df self) ID_FIELD = Inr ids" ..
  have len: "length ids = length (rows (df self))"
    using ids by (rule column_length)
  have bound: "\<forall>(l', r') \<in> set ?rs. l' < length ids"
    using row_at_label [OF positions] len by (auto dest: in_set_dropD)
  from validate_list_completes [OF strs ids bound]
  obtain sl where sl: "validate_list ?cols ?rs self = (None, sl)" ..
  from validate_list_lists [OF sl rec tok blank ids] have listed: "ids ! l \<in> set (to_delete sl)"
    by simp
  from rec have "(l, r) \<in> set (rows (df self))"
    by (rule in_set_dropD)
  from row_at_label [OF positions this] have "l < length (rows (df self))"
    and "rows (df self) ! l = (l, r)"
    by simp_all
  from column_at_row [OF ids ident this] listed have "ident \<in> set (to_delete sl)"
    by simp
  with sl show "\<exists>sl. validate_list ?cols ?rs self = (None, sl) \<and> ident \<in> set (to_delete sl)"
    by blast
qed

theorem empty_token_fails_validation_witness:
  "(2, [Str ''2'', Str ''  '', Str []]) \<in> set (drop 1 (rows (df blank_self)))
   \<and> getitem (columns (df blank_self)) [Str ''2'', Str ''  '', Str []] WCA_TOKEN_FIELD
       = Inr (Str ''  '')
   \<and> strip ''  '' = []
   \<and> is_valid blank_self (strip ''  '')
   \<and> (\<exists>sd. validate_delete (columns (df blank_self)) (drop 1 (rows (df blank_self))) blank_self
              = (None, sd)
          \<and> 2 \<notin> set (labels (df sd)))
   \<and> (\<exists>sl. validate_list (columns (df blank_self)) (drop 1 (rows (df blank_self))) blank_self
              = (None, sl)
          \<and> Str ''2'' \<in> set (to_delete sl))"
proof -
  let ?r = "[Str ''2'', Str ''  '', Str []]"
  have rec: "(2, ?r) \<in> set (drop 1 (rows (df blank_self)))"
    by (simp add: sample_defs)
  have tok: "getitem (columns (df blank_self)) ?r WCA_TOKEN_FIELD = Inr (Str ''  '')"
    by (simp add: sample_defs getitem_def)
  have blank: "strip ''  '' = []"
    by (simp add: strip_def isspace_def)
  have strs: "\<forall>(l', r') \<in> set (drop 1 (rows (df blank_self))).
                \<exists>t'. getitem (columns (df blank_self)) r' WCA_TOKEN_FIELD = Inr (Str t')"
    by (simp add: sample_defs getitem_def)
  have dist: "distinct (labels (df blank_self))"
    by (simp add: sample_defs labels_def)
  have positions: "labels (df blank_self) = [0..<length (rows (df blank_self))]"
    by (simp add: sample_defs labels_def upt_rec)
  have ident: "getitem (columns (df blank_self)) ?r ID_FIELD = Inr (Str ''2'')"
    by (simp add: sample_defs getitem_def)
  have accepted: "is_valid blank_self (strip ''  '')"
    by (simp add: blank is_valid_def sample_defs)
  note inst = empty_token_fails_validation [OF rec tok blank strs, of "Str ''2''"]
  from inst dist have "\<exists>sd. validate_delete (columns (df blank_self))
        (drop 1 (rows (df blank_self))) blank_self = (None, sd) \<and> 2 \<notin> set (labels (df sd))"
    by blast
  moreover from inst positions ident have "\<exists>sl. validate_list (columns (df blank_self))
        (drop 1 (rows (df blank_self))) blank_self = (None, sl) \<and> Str ''2'' \<in> set (to_delete sl)"
    by blast
  ultimately show ?thesis
    using rec tok blank accepted by blast
qed

subsection \<open>Facts about the list and the blocks of \<^verbatim>\<open>run_list\<close>\<close>

lemma write_lines_None:
  "write_lines cs acc = (None, content) \<Longrightarrow>
     \<exists>ids. cs = map Str ids \<and> content = acc @ concat (map (\<lambda>i. i @ [CHR 0x0A]) ids)"
proof (induction cs arbitrary: acc)
  case Nil
  then show ?case by simp
next
  case (Cons c cs)
  then obtain s where c: "c = Str s" and rest: "write_lines cs (acc @ s @ [CHR 0x0A]) = (None, content)"
    by (cases c) auto
  from Cons.IH [OF rest] obtain ids
    where "cs = map Str ids" "content = (acc @ s @ [CHR 0x0A]) @ concat (map (\<lambda>i. i @ [CHR 0x0A]) ids)"
    by blast
  with c show ?case
    by (intro exI [of _ "s # ids"]) simp
qed

lemma delete_older_duplicates_list:
  "delete_older_duplicates True s = (res, s') \<Longrightarrow>
     s' = s \<and> (res = Inl KeyError \<and> column (df s) WCA_TOKEN_FIELD = Inl KeyError \<or>
       (\<exists>tokens. column (df s) WCA_TOKEN_FIELD = Inr tokens \<and> res = Inr (Some (duplicated tokens))))"
  by (auto simp: delete_older_duplicates_def column_def split: sum.splits option.splits)

lemma and_then_None:
  "and_then res f = (None, s') \<longleftrightarrow> (\<exists>s. res = (None, s) \<and> f s = (None, s'))"
  by (auto simp: and_then_def split: prod.splits option.splits)

lemma and_then_frame:
  assumes "\<And>s. df (snd (f s)) = df s"
  shows "df (snd (and_then res f)) = df (snd res)"
  using assms by (auto simp: and_then_def split: prod.splits option.splits)

lemma list_duplicates_frame: "df (snd (list_duplicates s)) = df s"
  by (cases "delete_older_duplicates True (linfo ''Checking responses with duplicated tokens...'' s)")
     (auto simp: list_duplicates_def Let_def log_defs split: sum.splits option.splits
       dest!: delete_older_duplicates_list)

lemma list_invalid_frame: "df (snd (list_invalid s)) = df s"
proof -
  obtain e s' where v: "list_invalid s = (e, s')"
    by (cases "list_invalid s")
  then show ?thesis
    by (auto simp: list_invalid_def Let_def log_defs dest!: validate_list_frame)
qed

lemma check_bad_token_column_frame: "df (snd (check_bad_token_column s)) = df s"
  by (auto simp: check_bad_token_column_def log_defs split: sum.splits)

lemma write_list_frame: "df (snd (write_list s)) = df s"
  by (auto simp: write_list_def Let_def split: prod.splits option.splits)

text \<open>After the repair block list mode does not touch the frame.\<close>

lemma run_list_after_repair: "df (snd (run_list self)) = df (snd (fix_columns self))"
  by (simp add: run_list_def and_then_frame list_duplicates_frame
      list_invalid_frame check_bad_token_column_frame write_list_frame)

lemma list_duplicates_None:
  assumes "list_duplicates s = (None, s')"
  shows "\<exists>tokens dups. column (df s) WCA_TOKEN_FIELD = Inr tokens
           \<and> column (select_rows (df s) (duplicated tokens)) ID_FIELD = Inr dups
           \<and> to_delete s' = dups \<and> df s' = df s"
proof -
  let ?s1 = "linfo ''Checking responses with duplicated tokens...'' s"
  obtain res s2 where d: "delete_older_duplicates True ?s1 = (res, s2)"
    by (cases "delete_older_duplicates True ?s1")
  from delete_older_duplicates_list [OF d] assms d show ?thesis
    by (auto simp: list_duplicates_def Let_def log_defs split: sum.splits)
qed

lemma list_invalid_None:
  assumes "list_invalid s = (None, s')"
  shows "\<exists>fails. to_delete s' = to_delete s @ fails"
  using assms by (auto simp: list_invalid_def Let_def log_defs dest!: validate_list_frame)

lemma check_bad_token_column_None:
  "check_bad_token_column s = (None, s') \<Longrightarrow> to_delete s' = to_delete s"
  by (auto simp: check_bad_token_column_def log_defs split: sum.splits if_splits)

lemma write_list_None:
  assumes "write_list s = (None, s')"
  shows "to_delete s' = to_delete s
       \<and> (\<exists>ids. clean (to_delete s) = map Str ids
              \<and> output_file s' = Some (concat (map (\<lambda>i. i @ [CHR 0x0A]) ids)))"
proof -
  from assms obtain content where w: "write_lines (clean (to_delete s)) [] = (None, content)"
    and s': "s' = s\<lparr>output_file := Some content, deleted := int (length (clean (to_delete s)))\<rparr>"
    by (auto simp: write_list_def Let_def split: prod.splits option.splits)
  from write_lines_None [OF w] s' show ?thesis
    by auto
qed

subsection \<open>The written list has no repetitions\<close>

text \<open>
  C6. The list comprehension of \<^verbatim>\<open>run_list\<close> returns a list without repetitions
  that holds the same elements: the entries at the positions where an element stands for
  the first time, in the order of the positions. A run of \<^verbatim>\<open>run_list\<close> that ends
  without an exception has put the identifiers of the marked duplicates (of the frame as
  the repair left it, which is the frame at the end of the run) first and the ones the
  validation loop appended after them, and the file holds that list without its
  repetitions, one identifier a line.
\<close>

theorem deletion_list_duplicate_free:
  "distinct (clean xs)
   \<and> set (clean xs) = set xs
   \<and> clean xs = map ((!) xs) (filter (\<lambda>i. \<forall>j<i. xs ! j \<noteq> xs ! i) [0..<length xs])
   \<and> (run_list self = (None, s') \<longrightarrow>
        (\<exists>tokens dups fails ids.
            column (df s') WCA_TOKEN_FIELD = Inr tokens
          \<and> column (select_rows (df s') (duplicated tokens)) ID_FIELD = Inr dups
          \<and> to_delete s' = dups @ fails
          \<and> map Str ids = clean (dups @ fails)
          \<and> distinct ids
          \<and> output_file s' = Some (concat (map (\<lambda>i. i @ [CHR 0x0A]) ids))))"
proof (intro conjI impI)
  show "distinct (clean xs)"
    by (rule distinct_clean)
  show "set (clean xs) = set xs"
    by (rule set_clean)
  show "clean xs = map ((!) xs) (filter (\<lambda>i. \<forall>j<i. xs ! j \<noteq> xs ! i) [0..<length xs])"
    by (rule clean_positions)
next
  assume "run_list self = (None, s')"
  then obtain s1 s2 s3 s4 where
    fx: "fix_columns self = (None, s1)" and dup: "list_duplicates s1 = (None, s2)"
    and inv: "list_invalid s2 = (None, s3)" and chk: "check_bad_token_column s3 = (None, s4)"
    and wr: "write_list s4 = (None, s')"
    unfolding run_list_def and_then_None by blast
  have "df s' = df s4"
    using write_list_frame [of s4] wr by simp
  also have "\<dots> = df s3"
    using check_bad_token_column_frame [of s3] chk by simp
  also have "\<dots> = df s2"
    using list_invalid_frame [of s2] inv by simp
  also have "\<dots> = df s1"
    using list_duplicates_frame [of s1] dup by simp
  finally have s1: "df s1 = df s'"
    by simp
  from list_duplicates_None [OF dup] s1 obtain tokens dups where
    tokens: "column (df s') WCA_TOKEN_FIELD = Inr tokens"
    and dups: "column (select_rows (df s') (duplicated tokens)) ID_FIELD = Inr dups"
    and d2: "to_delete s2 = dups"
    by auto
  from list_invalid_None [OF inv] d2 obtain fails where d3: "to_delete s3 = dups @ fails"
    by auto
  from check_bad_token_column_None [OF chk] d3 have d4: "to_delete s4 = dups @ fails"
    by simp
  from write_list_None [OF wr] d4 obtain ids where
    d5: "to_delete s' = dups @ fails" and ids: "clean (dups @ fails) = map Str ids"
    and out: "output_file s' = Some (concat (map (\<lambda>i. i @ [CHR 0x0A]) ids))"
    by auto
  have "distinct (map Str ids)"
    using distinct_clean [of "dups @ fails"] ids by simp
  then have "distinct ids"
    by (simp add: distinct_map)
  with tokens dups d5 ids out
  show "\<exists>tokens dups fails ids.
            column (df s') WCA_TOKEN_FIELD = Inr tokens
          \<and> column (select_rows (df s') (duplicated tokens)) ID_FIELD = Inr dups
          \<and> to_delete s' = dups @ fails
          \<and> map Str ids = clean (dups @ fails)
          \<and> distinct ids
          \<and> output_file s' = Some (concat (map (\<lambda>i. i @ [CHR 0x0A]) ids))"
    by (intro exI [of _ tokens] exI [of _ dups] exI [of _ fails] exI [of _ ids]) simp
qed

theorem deletion_list_duplicate_free_witness:
  "run_list twice_self = (None, snd (run_list twice_self))
   \<and> to_delete (snd (run_list twice_self)) = [Str ''2'', Str ''1'', Str ''2'']
   \<and> output_file (snd (run_list twice_self)) = Some (''2'' @ [CHR 0x0A] @ ''1'' @ [CHR 0x0A])
   \<and> (\<exists>tokens dups fails ids.
          column (df (snd (run_list twice_self))) WCA_TOKEN_FIELD = Inr tokens
        \<and> column (select_rows (df (snd (run_list twice_self))) (duplicated tokens)) ID_FIELD
            = Inr dups
        \<and> to_delete (snd (run_list twice_self)) = dups @ fails
        \<and> map Str ids = clean (dups @ fails)
        \<and> distinct ids
        \<and> output_file (snd (run_list twice_self))
            = Some (concat (map (\<lambda>i. i @ [CHR 0x0A]) ids)))"
proof -
  have "fst (run_list twice_self) = None"
    by code_simp
  then have ended: "run_list twice_self = (None, snd (run_list twice_self))"
    by (simp add: prod_eq_iff)
  have listed: "to_delete (snd (run_list twice_self)) = [Str ''2'', Str ''1'', Str ''2'']"
    by code_simp
  have written: "output_file (snd (run_list twice_self))
      = Some (''2'' @ [CHR 0x0A] @ ''1'' @ [CHR 0x0A])"
    by code_simp
  from deletion_list_duplicate_free [of "[] :: nat list" twice_self "snd (run_list twice_self)"]
    ended
  have "\<exists>tokens dups fails ids.
          column (df (snd (run_list twice_self))) WCA_TOKEN_FIELD = Inr tokens
        \<and> column (select_rows (df (snd (run_list twice_self))) (duplicated tokens)) ID_FIELD
            = Inr dups
        \<and> to_delete (snd (run_list twice_self)) = dups @ fails
        \<and> map Str ids = clean (dups @ fails)
        \<and> distinct ids
        \<and> output_file (snd (run_list twice_self))
            = Some (concat (map (\<lambda>i. i @ [CHR 0x0A]) ids))"
    by blast
  with ended listed written show ?thesis
    by blast
qed

subsection \<open>List mode removes no row\<close>

text \<open>
  C8, as the code has it. List mode begins with the repair block, as delete mode does, so
  that its validation sees the repaired tokens: the frame after a run in list mode is not
  always the frame the Loader built. On the sample survey row 2 has the token
  \<^verbatim>\<open>' '\<close> when it is loaded and the 64 characters of the unnamed column after the run.
\<close>

theorem list_mode_repairs_counterexample:
  "rows (read_csv plain_inference converters overflow_survey) ! 2
     = (2, [Str ''2'', Str '' '', Str token_B])
   \<and> rows (df (snd (run plain_inference (Some overflow_survey) (Some both_tokens) (init True)))) ! 2
     = (2, [Str ''2'', Str token_B, Str token_B])
   \<and> df (snd (run plain_inference (Some overflow_survey) (Some both_tokens) (init True)))
     \<noteq> read_csv plain_inference converters overflow_survey"
proof -
  have before: "rows (read_csv plain_inference converters overflow_survey) ! 2
      = (2, [Str ''2'', Str '' '', Str token_B])"
    by code_simp
  have after: "rows (df (snd (run plain_inference (Some overflow_survey) (Some both_tokens)
      (init True)))) ! 2 = (2, [Str ''2'', Str token_B, Str token_B])"
    by code_simp
  have "token_B \<noteq> '' ''"
    by code_simp
  with before after
  have "df (snd (run plain_inference (Some overflow_survey) (Some both_tokens) (init True)))
      \<noteq> read_csv plain_inference converters overflow_survey"
    by auto
  with before after show ?thesis
    by blast
qed

text \<open>
  C8, amended. List mode removes no row, adds none and moves none, and it leaves the
  columns and the labels as they are, whether the run ends normally or with an exception.
  Row for row, the frame after the run holds the row it held before, or that row with the
  stripped 64 characters of another column in the place of its blank token, which is what
  the repair writes; the first row is never changed. So after \<^verbatim>\<open>run\<close> in list mode on
  a survey file that exists, the frame is the one \<^verbatim>\<open>read_csv\<close> returned up to such
  repaired tokens. Failing and duplicate records are only put on the list.
\<close>

theorem list_mode_keeps_rows:
  "columns (df (snd (run_list self))) = columns (df self)
   \<and> labels (df (snd (run_list self))) = labels (df self)
   \<and> take 1 (rows (df (snd (run_list self)))) = take 1 (rows (df self))
   \<and> list_all2 (same_or_repaired (columns (df self)))
         (rows (df self)) (rows (df (snd (run_list self))))
   \<and> columns (df (snd (run infer (Some survey) tokens (init True))))
       = columns (read_csv infer converters survey)
   \<and> list_all2 (same_or_repaired (columns (read_csv infer converters survey)))
         (rows (read_csv infer converters survey))
         (rows (df (snd (run infer (Some survey) tokens (init True)))))"
proof -
  have cols: "columns (df (snd (run_list s))) = columns (df s)" for s
    by (simp add: run_list_after_repair fix_columns_fields)
  have rel: "list_all2 (same_or_repaired (columns (df s))) (rows (df s)) (rows (df (snd (run_list s))))"
    for s
  proof -
    obtain e s' where r: "fix_columns s = (e, s')"
      by (cases "fix_columns s")
    from fix_columns_rows [OF r] r show ?thesis
      by (auto simp: run_list_after_repair)
  qed
  have labs: "labels (df (snd (run_list self))) = labels (df self)"
  proof (rule nth_equalityI)
    show "length (labels (df (snd (run_list self)))) = length (labels (df self))"
      using rel [of self] by (simp add: labels_def list_all2_lengthD)
  next
    fix q assume "q < length (labels (df (snd (run_list self))))"
    then have q: "q < length (rows (df self))"
      using rel [of self] by (simp add: labels_def list_all2_lengthD)
    with rel [of self] have "same_or_repaired (columns (df self)) (rows (df self) ! q)
        (rows (df (snd (run_list self))) ! q)"
      by (simp add: list_all2_conv_all_nth)
    then have "fst (rows (df (snd (run_list self))) ! q) = fst (rows (df self) ! q)"
      by auto
    with q rel [of self] show "labels (df (snd (run_list self))) ! q = labels (df self) ! q"
      by (simp add: labels_def list_all2_lengthD)
  qed
  have first: "take 1 (rows (df (snd (run_list self)))) = take 1 (rows (df self))"
  proof -
    obtain e s' where r: "fix_columns self = (e, s')"
      by (cases "fix_columns self")
    have "rows (df s') ! 0 = rows (df self) ! 0"
    proof (cases "truthy (bad_token_column self)")
      case True
      let ?s1 = "linfo ''Fixing columns...'' self"
      from True r have "fix_token_position ?s1 = (e, s')"
        by (simp add: fix_columns_def Let_def log_defs)
      then have "fix_rows (columns (df ?s1)) (bad_token_column ?s1) (one_block (df ?s1))
          (enumerate 1 (drop 1 (rows (df ?s1)))) ?s1 = (e, s')"
        by (simp only: fix_token_position_def)
      moreover have "0 \<notin> fst ` set (enumerate 1 (drop 1 (rows (df ?s1))))"
        by (auto simp: in_set_enumerate_eq)
      ultimately have "rows (df s') ! 0 = rows (df ?s1) ! 0"
        by (rule fix_rows_untouched)
      then show ?thesis
        by (simp add: log_defs)
    next
      case False
      with r show ?thesis
        by (auto simp: fix_columns_def Let_def log_defs)
    qed
    moreover have "length (rows (df s')) = length (rows (df self))"
      using rel [of self] r by (simp add: run_list_after_repair list_all2_lengthD)
    ultimately have "take 1 (rows (df s')) = take 1 (rows (df self))"
      by (cases "rows (df s')"; cases "rows (df self)") simp_all
    with r show ?thesis
      by (simp add: run_list_after_repair)
  qed
  have loaded: "columns (df (snd (run infer (Some survey) tokens (init True))))
       = columns (read_csv infer converters survey)
     \<and> list_all2 (same_or_repaired (columns (read_csv infer converters survey)))
         (rows (read_csv infer converters survey))
         (rows (df (snd (run infer (Some survey) tokens (init True)))))"
  proof (cases tokens)
    case None
    with list_all2_same [of "columns (read_csv infer converters survey)"
        "rows (read_csv infer converters survey)"]
    show ?thesis
      by (simp add: run_def Let_def log_defs)
  next
    case (Some content)
    let ?f = "read_csv infer converters survey"
    show ?thesis
    proof (cases "columns ?f = []")
      case True
      with Some list_all2_same [of "columns (read_csv infer converters survey)"
          "rows (read_csv infer converters survey)"]
      show ?thesis
        by (simp add: run_def Let_def log_defs)
    next
      case False
      define s5 where "s5 = (lverbose ''Opening files...'' (init True))
        \<lparr>df := ?f, token_list := split_lines (read_text content),
         total_responses := int (length (rows ?f)) - 1,
         bad_token_column := (if \<not> contains ''Unnamed'' (last (columns ?f)) then None
                              else Some (last (columns ?f)))\<rparr>"
      have frame: "df s5 = ?f" and mode: "list_only s5"
        by (simp_all add: s5_def log_defs init_def)
      from Some False have "run infer (Some survey) tokens (init True) = run_list s5"
        by (simp add: run_def Let_def s5_def log_defs init_def)
      with cols [of s5] rel [of s5] frame show ?thesis
        by simp
    qed
  qed
  from cols [of self] labs first rel [of self] loaded show ?thesis
    by blast
qed

subsection \<open>Delete mode writes the column without a header\<close>

lemma delete_row_columns: "delete_row i s = (e, s') \<Longrightarrow> columns (df s') = columns (df s)"
  by (auto simp: delete_row_def drop_label_def log_defs Let_def split: if_splits)

lemma validate_delete_columns:
  "validate_delete cols rs s = (e, s') \<Longrightarrow> columns (df s') = columns (df s)"
proof (induction rs arbitrary: s)
  case Nil
  then show ?case by simp
next
  case (Cons p rs)
  obtain i r where p: "p = (i, r)" by (cases p)
  from Cons.prems show ?case
    unfolding p
    by (auto simp: log_defs split: sum.splits if_splits prod.splits option.splits
        dest!: Cons.IH delete_row_columns)
qed

lemma and_then_columns:
  assumes "\<And>s. columns (df (snd (f s))) = columns (df s)"
  shows "columns (df (snd (and_then res f))) = columns (df (snd res))"
  using assms by (auto simp: and_then_def split: prod.splits option.splits)

lemma remove_duplicates_columns: "columns (df (snd (remove_duplicates s))) = columns (df s)"
  by (auto simp: remove_duplicates_def delete_older_duplicates_def drop_marked_def Let_def log_defs
      split: sum.splits)

lemma delete_invalid_columns: "columns (df (snd (delete_invalid s))) = columns (df s)"
proof -
  obtain e s' where "delete_invalid s = (e, s')"
    by (cases "delete_invalid s")
  then show ?thesis
    by (auto simp: delete_invalid_def Let_def log_defs dest!: validate_delete_columns)
qed

lemma remove_bad_token_column_frame: "df (snd (remove_bad_token_column s)) = df s"
  by (auto simp: remove_bad_token_column_def Let_def log_defs split: sum.splits)

lemma write_csv_frame: "df (snd (write_csv s)) = df s"
  by (simp add: write_csv_def Let_def log_defs)

text \<open>Delete mode never takes a column out of the frame.\<close>

lemma run_delete_columns: "columns (df (snd (run_delete self))) = columns (df self)"
  by (simp add: run_delete_def and_then_columns fix_columns_fields remove_duplicates_columns
      delete_invalid_columns remove_bad_token_column_frame write_csv_frame)

text \<open>
  C1. The specification has delete mode drop the unnamed column from the frame before the
  frame is written. The code does not: \<^verbatim>\<open>run_delete\<close> calls
  \<^verbatim>\<open>self.df.drop([self.bad_token_column], axis=1)\<close> and does not keep the result, so
  the frame after \<^verbatim>\<open>run_delete\<close> has the columns it had before. On the sample survey,
  whose third header field is empty, the run ends normally, the frame still has the three
  columns, and every line of the file has three fields, the 64 characters of response 2
  among them: \<^verbatim>\<open>fix_headers\<close> has only taken the name \<^verbatim>\<open>Unnamed: 2\<close> out of the
  header line.
\<close>

theorem delete_mode_keeps_overflow_column:
  "columns (df (snd (run_delete self))) = columns (df self)
   \<and> columns (df (snd (run plain_inference (Some overflow_survey) (Some both_tokens) (init False))))
     = [''Respondent ID'', ''wca_token'', ''Unnamed: 2'']
   \<and> fst (run plain_inference (Some overflow_survey) (Some both_tokens) (init False)) = None
   \<and> output_file (snd (run plain_inference (Some overflow_survey) (Some both_tokens) (init False)))
     = Some (''Respondent ID,wca_token,'' @ [CHR 0x0A] @ ''id,tok,'' @ [CHR 0x0A]
             @ ''1,'' @ token_A @ '','' @ [CHR 0x0A]
             @ ''2,'' @ token_B @ '','' @ token_B @ [CHR 0x0A])"
proof
  show "columns (df (snd (run_delete self))) = columns (df self)"
    by (rule run_delete_columns)
next
  show "columns (df (snd (run plain_inference (Some overflow_survey) (Some both_tokens) (init False))))
     = [''Respondent ID'', ''wca_token'', ''Unnamed: 2'']
   \<and> fst (run plain_inference (Some overflow_survey) (Some both_tokens) (init False)) = None
   \<and> output_file (snd (run plain_inference (Some overflow_survey) (Some both_tokens) (init False)))
     = Some (''Respondent ID,wca_token,'' @ [CHR 0x0A] @ ''id,tok,'' @ [CHR 0x0A]
             @ ''1,'' @ token_A @ '','' @ [CHR 0x0A]
             @ ''2,'' @ token_B @ '','' @ token_B @ [CHR 0x0A])"
    by code_simp
qed

subsection \<open>List mode without an unnamed last column\<close>

lemma and_then_bad_token_column:
  assumes "\<And>s. bad_token_column (snd (f s)) = bad_token_column s"
  shows "bad_token_column (snd (and_then res f)) = bad_token_column (snd res)"
  using assms by (auto simp: and_then_def split: prod.splits option.splits)

lemma and_then_Some: "fst res = Some e \<Longrightarrow> fst (and_then res f) = Some e"
  by (auto simp: and_then_def split: prod.splits option.splits)

lemma list_duplicates_bad_token_column:
  "bad_token_column (snd (list_duplicates s)) = bad_token_column s"
  by (auto simp: list_duplicates_def delete_older_duplicates_def Let_def log_defs
      split: sum.splits option.splits)

lemma list_invalid_bad_token_column:
  "bad_token_column (snd (list_invalid s)) = bad_token_column s"
proof -
  obtain e s' where "list_invalid s = (e, s')"
    by (cases "list_invalid s")
  then show ?thesis
    by (auto simp: list_invalid_def Let_def log_defs dest!: validate_list_frame)
qed

text \<open>Without an unnamed last column list mode always ends with an exception.\<close>

lemma run_list_without_overflow_column:
  assumes "bad_token_column self = None"
  shows "\<exists>e. fst (run_list self) = Some e"
proof -
  let ?res = "and_then (and_then (fix_columns self) list_duplicates) list_invalid"
  have "bad_token_column (snd ?res) = None"
    using assms
    by (simp add: and_then_bad_token_column list_duplicates_bad_token_column
        list_invalid_bad_token_column fix_columns_fields)
  then have "\<exists>e. fst (and_then ?res check_bad_token_column) = Some e"
    by (cases ?res)
       (auto simp: and_then_def check_bad_token_column_def column_of_def split: option.splits)
  then obtain e where "fst (and_then ?res check_bad_token_column) = Some e" ..
  then have "fst (run_list self) = Some e"
    unfolding run_list_def by (rule and_then_Some)
  then show ?thesis ..
qed

text \<open>
  C3. The specification has both modes end without an error when the last column has a
  name. List mode does not: \<^verbatim>\<open>self.bad_token_column\<close> is \<^verbatim>\<open>None\<close> then;
  \<^verbatim>\<open>run_delete\<close> tests it before it reads the column, \<^verbatim>\<open>run_list\<close> reads
  \<^verbatim>\<open>self.df[self.bad_token_column]\<close> without a test. On the sample survey of two named
  columns list mode ends with a \<^verbatim>\<open>KeyError\<close> and writes no file, while delete mode
  ends normally.
\<close>

theorem list_mode_fails_without_overflow_column:
  "fst (run plain_inference (Some plain_survey) (Some ''x'') (init True)) = Some KeyError
   \<and> output_file (snd (run plain_inference (Some plain_survey) (Some ''x'') (init True))) = None
   \<and> fst (run plain_inference (Some plain_survey) (Some ''x'') (init False)) = None"
  by code_simp

subsection \<open>A missing input file\<close>

text \<open>
  C7. The specification treats the two input files alike: a missing one is logged at the
  error level and the run ends with an exit status of its own. The code does so for the
  survey file only: the error is caught and logged, and the run ends with
  \<^verbatim>\<open>SystemExit(1)\<close>. For a missing token file the \<^verbatim>\<open>FileNotFoundError\<close> of
  \<^verbatim>\<open>open\<close> leaves \<^verbatim>\<open>run\<close> as it is: nothing is logged at the error level, and the
  program chooses no exit status. In both cases nothing has been written.
\<close>

theorem missing_token_file_not_caught:
  "run infer None tokens self
     = (Some (SystemExit 1), lerr ''Survey file not found.'' (lverbose ''Opening files...'' self))
   \<and> run infer (Some file) None self
     = (Some FileNotFoundError,
        (lverbose ''Opening files...'' self)\<lparr>df := read_csv infer converters file\<rparr>)"
  by (simp add: run_def Let_def)

subsection \<open>The Loader beyond \<^verbatim>\<open>MAX_COLUMNS\<close>\<close>

text \<open>
  C9. The specification has every cell of the loaded frame be text, however many columns
  the file has. The code gives \<^verbatim>\<open>read_csv\<close> a converter for the columns 0 to 399 only.
  On a survey file of 401 columns whose fields are all the numeral 7, the cell in column
  399 is the text and the cell in column 400 is what pandas infers, the integer 7.
\<close>

theorem loader_infers_past_max_columns:
  "snd (rows (read_csv numeric_inference converters wide_survey) ! 0) ! 399 = Str ''7''
   \<and> snd (rows (read_csv numeric_inference converters wide_survey) ! 0) ! 400 = Num 7"
  by code_simp

text \<open>
  Up to \<^verbatim>\<open>MAX_COLUMNS\<close> columns every cell is text, whatever pandas would infer, and
  the labels of the loaded frame are the positions of the rows.
\<close>

lemma read_csv_text_cells:
  assumes "length (fst survey) \<le> MAX_COLUMNS"
  shows "\<forall>(l, r) \<in> set (rows (read_csv infer converters survey)). \<forall>c \<in> set r. \<exists>s. c = Str s"
  using assms
  by (cases survey) (auto simp: read_csv_def converters_def)

lemma read_csv_labels:
  "labels (read_csv infer convs survey) = [0..<length (rows (read_csv infer convs survey))]"
  by (cases survey) (simp add: read_csv_def labels_def comp_def case_prod_unfold map_fst_enumerate)

end
